theory Spec2Isabelle
  imports Main
begin

section \<open>Python strings\<close>

text \<open>
  A Python \<open>str\<close> is modelled as a \<open>string\<close>; a \<open>char\<close> stands for the code point
  with the same number, so the model covers texts whose code points are below 256.
  Each primitive below is the library function the script calls, at the arguments the
  script calls it with.
\<close>

text \<open>\<open>s.startswith(p)\<close>\<close>

fun startswith :: "string \<Rightarrow> string \<Rightarrow> bool" where
  "startswith s [] = True"
| "startswith [] (p # ps) = False"
| "startswith (c # cs) (p # ps) = (c = p \<and> startswith cs ps)"

text \<open>\<open>p in s\<close> for two strings: \<open>p\<close> occurs in \<open>s\<close> as a contiguous substring.\<close>

fun py_in :: "string \<Rightarrow> string \<Rightarrow> bool" where
  "py_in p [] = (p = [])"
| "py_in p (c # cs) = (startswith (c # cs) p \<or> py_in p cs)"

text \<open>
  \<open>str.isspace\<close> on one character, for code points below 256: tab, line feed, vertical
  tab, form feed, carriage return, the separators 0x1C to 0x1F, space, NEL and the
  no-break space.
\<close>

definition isspace :: "char \<Rightarrow> bool" where
  "isspace c = (of_char c \<in> set [9, 10, 11, 12, 13, 28, 29, 30, 31, 32, 133, 160 :: nat])"

text \<open>\<open>s.strip()\<close>\<close>

definition strip :: "string \<Rightarrow> string" where
  "strip s = rev (dropWhile isspace (rev (dropWhile isspace s)))"

text \<open>
  \<open>s.lower()\<close>. The upper-case letters below 256 are A to Z and 0xC0 to 0xDE without
  the multiplication sign 0xD7; each lower-case partner is 32 higher, which is bit 5,
  clear in every one of them.
\<close>

definition isupper :: "char \<Rightarrow> bool" where
  "isupper c = (let n = of_char c :: nat in
     (65 \<le> n \<and> n \<le> 90) \<or> (192 \<le> n \<and> n \<le> 222 \<and> n \<noteq> 215))"

definition lower_char :: "char \<Rightarrow> char" where
  "lower_char c = (if isupper c
     then (case c of Char b0 b1 b2 b3 b4 b5 b6 b7 \<Rightarrow> Char b0 b1 b2 b3 b4 True b6 b7)
     else c)"

definition lower :: "string \<Rightarrow> string" where
  "lower s = map lower_char s"

text \<open>
  \<open>s.split(sep, 1)\<close> for a non-empty separator: the text before and after the first
  occurrence of \<open>sep\<close>, or \<open>s\<close> alone when there is none.
\<close>

fun split_once :: "string \<Rightarrow> string \<Rightarrow> (string \<times> string) option" where
  "split_once sep [] = None"
| "split_once sep (c # cs) =
     (if startswith (c # cs) sep then Some ([], drop (length sep) (c # cs))
      else map_option (\<lambda>(a, b). (c # a, b)) (split_once sep cs))"

definition py_split1 :: "string \<Rightarrow> string \<Rightarrow> string list" where
  "py_split1 sep s = (case split_once sep s of None \<Rightarrow> [s] | Some (a, b) \<Rightarrow> [a, b])"

text \<open>\<open>sep.join(xs)\<close>\<close>

fun join :: "string \<Rightarrow> string list \<Rightarrow> string" where
  "join sep [] = []"
| "join sep [x] = x"
| "join sep (x # y # ys) = x @ sep @ join sep (y # ys)"

text \<open>
  \<open>re.split(r'[|/-]', s)\<close>: the pieces of \<open>s\<close> between the characters \<open>|\<close>, \<open>/\<close> and
  \<open>-\<close>; the pattern matches one character at a time, so empty pieces are kept.
\<close>

definition is_delim :: "char \<Rightarrow> bool" where
  "is_delim c = (c = CHR ''|'' \<or> c = CHR ''/'' \<or> c = CHR ''-'')"

fun re_split :: "string \<Rightarrow> string list" where
  "re_split [] = [[]]"
| "re_split (c # cs) =
     (if is_delim c then [] # re_split cs
      else (case re_split cs of [] \<Rightarrow> [[c]] | w # ws \<Rightarrow> (c # w) # ws))"

text \<open>
  \<open>re.search(r'group-title="([^"]*)"', s)\<close>, returning group 1. \<open>match_group\<close> is the
  attempt at one start position: the literal \<open>group-title="\<close>, then the longest run of
  characters other than the double quote, then a double quote. \<open>re_search_group\<close> tries
  the start positions from left to right.
\<close>

definition dquote :: char where
  "dquote = CHR 0x22"

definition match_group :: "string \<Rightarrow> string option" where
  "match_group s =
     (if startswith s (''group-title='' @ [dquote])
      then (let r = drop 13 s in
            if dquote \<in> set r then Some (takeWhile (\<lambda>c. c \<noteq> dquote) r) else None)
      else None)"

fun re_search_group :: "string \<Rightarrow> string option" where
  "re_search_group [] = match_group []"
| "re_search_group (c # cs) =
     (case match_group (c # cs) of Some g \<Rightarrow> Some g | None \<Rightarrow> re_search_group cs)"

text \<open>
  \<open>text.splitlines()\<close>: the line boundaries below 256 are line feed, vertical tab, form
  feed, carriage return (with a line feed after it, if any, as one boundary), the
  separators 0x1C to 0x1E and NEL. A boundary at the very end opens no further line.
\<close>

definition is_linebreak :: "char \<Rightarrow> bool" where
  "is_linebreak c = (of_char c \<in> set [10, 11, 12, 13, 28, 29, 30, 133 :: nat])"

fun splitlines :: "string \<Rightarrow> string list" where
  "splitlines [] = []"
| "splitlines (c # cs) =
     (if is_linebreak c then
        [] # splitlines (if c = CHR 0x0D \<and> cs \<noteq> [] \<and> hd cs = CHR 0x0A then tl cs else cs)
      else (case splitlines cs of
              [] \<Rightarrow> [[c]]
            | w # ws \<Rightarrow> (c # w) # ws))"

section \<open>Exceptions and list indexing\<close>

text \<open>
  \<open>IndexError\<close> is the one exception the parser's own code can raise; \<open>Raised msg\<close> is
  an exception of class \<open>Exception\<close> raised by a collaborator (the HTTP client, the JSON
  decoder, the file system), with \<open>str(e) = msg\<close>.
\<close>

datatype exn = IndexError | Raised string

fun exn_text :: "exn \<Rightarrow> string" where
  "exn_text IndexError = ''list index out of range''"
| "exn_text (Raised msg) = msg"

text \<open>\<open>xs[i]\<close> for an index that is never negative.\<close>

definition getitem :: "'a list \<Rightarrow> nat \<Rightarrow> exn + 'a" where
  "getitem xs i = (if i < length xs then Inr (xs ! i) else Inl IndexError)"

section \<open>The playlist parser\<close>

text \<open>The dict \<open>{"name": .., "country": .., "group_title": .., "url": ..}\<close> of one channel.\<close>

record ChannelRecord =
  name :: string
  country :: string
  group_title :: string
  url :: string

definition allowed_news :: "string list" where
  "allowed_news = [''MSNBC'', ''CNN'', ''BBC'', ''CBC News'', ''CTV News'']"

text \<open>The \<open>if\<close>/\<open>elif\<close> chain that sets \<open>country\<close>, which starts as the empty string.\<close>

definition derive_country :: "string \<Rightarrow> string" where
  "derive_country g =
     (if list_ex (\<lambda>x. py_in x g) [''Canada'', ''CA''] then ''CA''
      else if list_ex (\<lambda>x. py_in x g) [''United States'', ''USA'', ''US''] then ''US''
      else if list_ex (\<lambda>x. py_in x g) [''United Kingdom'', ''UK'', ''GB''] then ''GB''
      else if list_ex (\<lambda>x. py_in x g) [''Australia'', ''AU''] then ''AU''
      else [])"

text \<open>\<open>cats = [c.strip().lower() for c in re.split(r'[|/-]', group_title)]\<close>\<close>

definition cats_of :: "string \<Rightarrow> string list" where
  "cats_of g = map (\<lambda>c. lower (strip c)) (re_split g)"

text \<open>The test of the category exclusion and the test of the news rule on a playlist entry.\<close>

definition excluded_cats :: "string list \<Rightarrow> bool" where
  "excluded_cats cats =
     list_ex (\<lambda>w. py_in w (join '' '' cats))
       [''sport'', ''kid'', ''children'', ''adult'', ''xxx'', ''porn'']"

definition news_blocked :: "string list \<Rightarrow> string \<Rightarrow> bool" where
  "news_blocked cats nm =
     (py_in ''news'' (join '' '' cats) \<and> \<not> list_ex (\<lambda>n. py_in n nm) allowed_news)"

text \<open>
  How the body of the \<open>try\<close> statement ends: it runs to its end, it executes \<open>continue\<close>,
  or an exception is raised in it.
\<close>

datatype ctl = Normal | Continue | Except exn

text \<open>\<open>lines[i].split(",", 1)[1].split(" tvg-", 1)[0].strip()\<close>, on the line \<open>lines[i]\<close>.\<close>

definition display_name :: "string \<Rightarrow> exn + string" where
  "display_name info =
     (case getitem (py_split1 '','' info) 1 of Inl e \<Rightarrow> Inl e | Inr rest \<Rightarrow>
      case getitem (py_split1 '' tvg-'' rest) 0 of Inl e \<Rightarrow> Inl e | Inr shown \<Rightarrow>
      Inr (strip shown))"

text \<open>\<open>group_match.group(1) if group_match else ""\<close>, for the search in the line \<open>info\<close>.\<close>

definition group_title_of :: "string \<Rightarrow> string" where
  "group_title_of info = (case re_search_group info of Some m \<Rightarrow> m | None \<Rightarrow> [])"

text \<open>
  The body of the \<open>try\<close> statement, run at index \<open>i\<close> with the list \<open>channels\<close>; it returns
  how it ends and the values of \<open>i\<close> and \<open>channels\<close> then.
\<close>

definition try_body :: "string list \<Rightarrow> nat \<Rightarrow> ChannelRecord list \<Rightarrow> ctl \<times> nat \<times> ChannelRecord list" where
  "try_body lines i channels =
     (case getitem lines i of Inl e \<Rightarrow> (Except e, i, channels) | Inr info \<Rightarrow>
      case display_name info of Inl e \<Rightarrow> (Except e, i, channels) | Inr nm \<Rightarrow>
      let j = i + 1 in
      case getitem lines j of Inl e \<Rightarrow> (Except e, j, channels) | Inr l \<Rightarrow>
      let u = strip l in
      if \<not> startswith u ''http'' then (Continue, j, channels) else
      case getitem lines (j - 1) of Inl e \<Rightarrow> (Except e, j, channels) | Inr prev \<Rightarrow>
      let g = group_title_of prev;
          c = derive_country g in
      if c = [] then (Continue, j, channels) else
      let cats = cats_of g in
      if excluded_cats cats then (Continue, j, channels) else
      if news_blocked cats nm then (Continue, j, channels) else
      (Normal, j, channels @ [\<lparr>name = nm, country = c, group_title = g, url = u\<rparr>]))"

text \<open>
  The \<open>while\<close> loop of \<open>parse_m3u\<close>. A \<open>continue\<close> in the body returns to the loop test
  and skips the \<open>i += 1\<close> that ends the loop body; \<open>except: pass\<close> leads to that
  \<open>i += 1\<close>, as a normal end of the body does. The marker test \<open>lines[i]\<close> is outside the
  \<open>try\<close> statement: an exception there would leave the function.
\<close>

function parse_loop :: "string list \<Rightarrow> nat \<Rightarrow> ChannelRecord list \<Rightarrow> exn + ChannelRecord list" where
  "parse_loop lines i channels =
     (if i < length lines then
        (case getitem lines i of
           Inl e \<Rightarrow> Inl e
         | Inr l \<Rightarrow>
             if startswith l ''#EXTINF:'' then
               (case try_body lines i channels of
                  (Continue, j, chs) \<Rightarrow> parse_loop lines j chs
                | (Normal, j, chs) \<Rightarrow> parse_loop lines (j + 1) chs
                | (Except e, j, chs) \<Rightarrow> parse_loop lines (j + 1) chs)
             else parse_loop lines (i + 1) channels)
      else Inr channels)"
  by pat_completeness auto
termination
proof (relation "measure (\<lambda>(lines, i, channels). length lines - i)")
  show "wf (measure (\<lambda>(lines, i, channels). length lines - i))"
    by simp
qed (auto simp: try_body_def Let_def split: sum.splits if_splits)

declare parse_loop.simps [simp del]

definition parse_m3u :: "string \<Rightarrow> exn + ChannelRecord list" where
  "parse_m3u text = parse_loop (splitlines text) 0 []"

section \<open>The JSON pipeline\<close>

text \<open>
  One object of the list that \<open>r.json()\<close> returns, at the types the loop uses it at. A
  field is \<open>None\<close> when the object has no such key; \<open>dict_get d\<close> is \<open>.get(key, d)\<close>. An
  element of \<open>languages\<close> is an object read through its key \<open>code\<close> only, an element
  of \<open>categories\<close> through its key \<open>name\<close> only, so each is modelled by that field.
\<close>

record JsonChannel =
  ch_id :: "string option"
  ch_name :: "string option"
  ch_network :: "string option"
  ch_country :: "string option"
  ch_logo :: "string option"
  ch_languages :: "string option list option"
  ch_is_nsfw :: "bool option"
  ch_categories :: "string option list option"

definition dict_get :: "'a \<Rightarrow> 'a option \<Rightarrow> 'a" where
  "dict_get d v = (case v of None \<Rightarrow> d | Some x \<Rightarrow> x)"

text \<open>The dict \<open>{"id": .., "name": .., "network": .., "country": .., "logo": ..}\<close>.\<close>

record ChannelEntry =
  entry_id :: string
  entry_name :: string
  entry_network :: string
  entry_country :: string
  entry_logo :: string

text \<open>\<open>[l.get("code","") for l in ch.get("languages",[])]\<close> and the list \<open>cats\<close>.\<close>

definition language_codes :: "JsonChannel \<Rightarrow> string list" where
  "language_codes ch = map (dict_get []) (dict_get [] (ch_languages ch))"

definition json_cats :: "JsonChannel \<Rightarrow> string list" where
  "json_cats ch = map (\<lambda>c. lower (dict_get [] c)) (dict_get [] (ch_categories ch))"

text \<open>The dict that the loop appends for the object \<open>ch\<close>.\<close>

definition entry_of :: "JsonChannel \<Rightarrow> ChannelEntry" where
  "entry_of ch =
     \<lparr>entry_id = dict_get [] (ch_id ch), entry_name = dict_get [] (ch_name ch),
      entry_network = dict_get [] (ch_network ch),
      entry_country = dict_get [] (ch_country ch),
      entry_logo = dict_get [] (ch_logo ch)\<rparr>"

text \<open>
  The \<open>for\<close> loop over \<open>data\<close>, with the list \<open>filtered\<close> it appends to. The comparison
  \<open>ch.get("country") not in [..]\<close> holds when the key is absent; \<open>ch.get("is_nsfw")\<close> is
  true only for the value \<open>true\<close>.
\<close>

fun filter_loop :: "JsonChannel list \<Rightarrow> ChannelEntry list \<Rightarrow> ChannelEntry list" where
  "filter_loop [] filtered = filtered"
| "filter_loop (ch # data) filtered =
     (if (case ch_country ch of None \<Rightarrow> True | Some c \<Rightarrow> c \<notin> set [''CA'', ''US'', ''GB'', ''AU''])
        then filter_loop data filtered
      else if ''eng'' \<notin> set (language_codes ch) then filter_loop data filtered
      else if ch_is_nsfw ch = Some True then filter_loop data filtered
      else if list_ex (\<lambda>x. x \<in> set (json_cats ch)) [''sports'', ''kids'', ''adult'', ''xxx'']
        then filter_loop data filtered
      else if ''news'' \<in> set (json_cats ch)
           \<and> \<not> list_ex (\<lambda>n. py_in n (dict_get [] (ch_name ch))) allowed_news
        then filter_loop data filtered
      else filter_loop data (filtered @ [entry_of ch]))"

section \<open>Writing the CSV files\<close>

text \<open>
  A dict handed to the writer is the list of its items in insertion order. A file is
  the list of the rows written to it, each row the list of its fields; how the \<open>csv\<close>
  module quotes and joins the fields is not modelled.
\<close>

type_synonym pydict = "(string \<times> string) list"

definition record_dict :: "ChannelRecord \<Rightarrow> pydict" where
  "record_dict r = [(''name'', name r), (''country'', country r),
     (''group_title'', group_title r), (''url'', url r)]"

definition entry_dict :: "ChannelEntry \<Rightarrow> pydict" where
  "entry_dict e = [(''id'', entry_id e), (''name'', entry_name e),
     (''network'', entry_network e), (''country'', entry_country e), (''logo'', entry_logo e)]"

definition keys :: "pydict \<Rightarrow> string list" where
  "keys d = map fst d"

text \<open>
  \<open>DictWriter._dict_to_list\<close> with the default \<open>extrasaction="raise"\<close> and
  \<open>restval=""\<close>: a key that is no field name raises \<open>ValueError\<close> (its message names
  the keys; the model keeps the fixed part of it).
\<close>

definition dict_to_list :: "string list \<Rightarrow> pydict \<Rightarrow> exn + string list" where
  "dict_to_list fieldnames d =
     (if list_ex (\<lambda>k. k \<notin> set fieldnames) (keys d)
      then Inl (Raised ''dict contains fields not in fieldnames'')
      else Inr (map (\<lambda>k. dict_get [] (map_of d k)) fieldnames))"

text \<open>
  \<open>w.writerows(rowdicts)\<close> after the rows \<open>written\<close>: the rows are converted and written
  one by one, so the rows before a failing dict stay in the file.
\<close>

fun writerows :: "string list \<Rightarrow> pydict list \<Rightarrow> string list list \<Rightarrow> exn option \<times> string list list" where
  "writerows fieldnames [] written = (None, written)"
| "writerows fieldnames (d # ds) written =
     (case dict_to_list fieldnames d of
        Inl e \<Rightarrow> (Some e, written)
      | Inr row \<Rightarrow> writerows fieldnames ds (written @ [row]))"

text \<open>\<open>w.writeheader(); w.writerows(rowdicts)\<close> on a file just opened for writing.\<close>

definition write_csv :: "string list \<Rightarrow> pydict list \<Rightarrow> exn option \<times> string list list" where
  "write_csv fieldnames rowdicts = writerows fieldnames rowdicts [fieldnames]"

section \<open>The task runner\<close>

text \<open>
  What a task meets outside the program: the answer of \<open>requests.get\<close> for a URL (an
  exception, or a response), what \<open>open(path, "w")\<close> raises for a path, if anything,
  and what the call of \<open>log\<close> raises for a message, if anything (it prints the line and
  appends it to the log file). Of a response the task uses \<open>raise_for_status()\<close>,
  \<open>text\<close> and \<open>json()\<close>.
\<close>

record Response =
  status_error :: "exn option"
  body_text :: string
  body_json :: "exn + JsonChannel list"

record Env =
  requests_get :: "string \<Rightarrow> exn + Response"
  open_error :: "string \<Rightarrow> exn option"
  log_error :: "string \<Rightarrow> exn option"

text \<open>The state a task changes: the files by path, and the lines of the log.\<close>

record World =
  files :: "string \<Rightarrow> string list list option"
  log_lines :: "string list"

text \<open>
  The arrow U+2192 of the messages lies beyond the code points of the model; it is
  written as the three bytes of its UTF-8 encoding, which is how the source file holds
  it.
\<close>

definition arrow :: string where
  "arrow = [CHR 0xE2, CHR 0x86, CHR 0x92]"

text \<open>\<open>str(n)\<close> for a length.\<close>

fun str_nat :: "nat \<Rightarrow> string" where
  "str_nat n = (if n < 10 then [''0123456789'' ! n]
                else str_nat (n div 10) @ [''0123456789'' ! (n mod 10)])"

declare str_nat.simps [simp del]

text \<open>
  \<open>os.path.join(OUTPUT_DIR, filename)\<close> on Windows, for a directory that does not end in
  a separator and a relative file name, as the script calls it; the directory is a
  parameter of the model.
\<close>

definition os_path_join :: "string \<Rightarrow> string \<Rightarrow> string" where
  "os_path_join dir filename = dir @ [CHR 0x5C] @ filename"

text \<open>
  \<open>with open(path, "w", ..) as f: w = csv.DictWriter(f, fieldnames=..); w.writeheader();
  w.writerows(rowdicts)\<close>: opening may raise and then leaves the files as they are;
  once open, the file holds the rows written until the block ends or raises.
\<close>

definition write_file :: "Env \<Rightarrow> string \<Rightarrow> string list \<Rightarrow> pydict list \<Rightarrow> World \<Rightarrow> exn option \<times> World" where
  "write_file env path fieldnames rowdicts w =
     (case open_error env path of
        Some e \<Rightarrow> (Some e, w)
      | None \<Rightarrow>
          (case write_csv fieldnames rowdicts of
             (err, rows) \<Rightarrow> (err, w\<lparr>files := (files w)(path \<mapsto> rows)\<rparr>)))"

text \<open>
  The body of the \<open>try\<close> statement of \<open>run_task\<close>: \<open>Inl e\<close> when the exception \<open>e\<close> is
  raised in it, \<open>Inr s\<close> when it returns the string \<open>s\<close>.
\<close>

definition run_task_try :: "Env \<Rightarrow> string \<Rightarrow> string \<Rightarrow> string \<Rightarrow> bool \<Rightarrow> World \<Rightarrow> (exn + string) \<times> World" where
  "run_task_try env output_dir task_url filename is_json w =
     (case requests_get env task_url of Inl e \<Rightarrow> (Inl e, w) | Inr r \<Rightarrow>
      case status_error r of Some e \<Rightarrow> (Inl e, w) | None \<Rightarrow>
      if is_json then
        (case body_json r of Inl e \<Rightarrow> (Inl e, w) | Inr data \<Rightarrow>
         let filtered = filter_loop data [];
             path = os_path_join output_dir filename;
             fieldnames = (if filtered \<noteq> [] then keys (entry_dict (hd filtered)) else [''name''])
         in case write_file env path fieldnames (map entry_dict filtered) w of
              (Some e, w') \<Rightarrow> (Inl e, w')
            | (None, w') \<Rightarrow>
                (Inr (filename @ '' '' @ arrow @ '' '' @ str_nat (length filtered) @ '' channels''), w'))
      else
        (case parse_m3u (body_text r) of Inl e \<Rightarrow> (Inl e, w) | Inr chs \<Rightarrow>
         let path = os_path_join output_dir filename
         in case write_file env path [''name'', ''country'', ''group_title'', ''url'']
                   (map record_dict chs) w of
              (Some e, w') \<Rightarrow> (Inl e, w')
            | (None, w') \<Rightarrow>
                (Inr (filename @ '' '' @ arrow @ '' '' @ str_nat (length chs) @ '' channels''), w')))"

text \<open>
  \<open>run_task\<close>: the call of \<open>log\<close> stands before the \<open>try\<close> statement, so what it raises
  leaves the function; \<open>except Exception as e\<close> turns what the body raises into the
  string \<open>f"{filename} FAILED: {e}"\<close>.
\<close>

definition start_message :: "string \<Rightarrow> string" where
  "start_message task_name = ''Starting '' @ arrow @ '' '' @ task_name"

definition run_task :: "Env \<Rightarrow> string \<Rightarrow> string \<Rightarrow> string \<Rightarrow> string \<Rightarrow> bool \<Rightarrow> World \<Rightarrow> (exn + string) \<times> World" where
  "run_task env output_dir task_name task_url filename is_json w =
     (let msg = start_message task_name in
      case log_error env msg of
        Some e \<Rightarrow> (Inl e, w)
      | None \<Rightarrow>
          (case run_task_try env output_dir task_url filename is_json
                  (w\<lparr>log_lines := log_lines w @ [msg]\<rparr>) of
             (Inl e, w') \<Rightarrow> (Inr (filename @ '' FAILED: '' @ exn_text e), w')
           | (Inr s, w') \<Rightarrow> (Inr s, w')))"

section \<open>Definitions used to state and prove the properties\<close>

subsection \<open>The loop as a scan\<close>

text \<open>
  \<open>entry_record info l\<close> is the record that the \<open>try\<close> body appends when it runs on the
  marker line \<open>info\<close> followed by the line \<open>l\<close>, if it appends one, and \<open>scan\<close> is the
  \<open>while\<close> loop read as a recursion over the list of lines. Both are shown to agree with
  \<open>try_body\<close> and \<open>parse_loop\<close> below (\<open>try_body_inner\<close>, \<open>parse_loop_scan\<close>); the proofs
  about the loop go through them.
\<close>

definition entry_record :: "string \<Rightarrow> string \<Rightarrow> ChannelRecord option" where
  "entry_record info l =
     (case display_name info of Inl e \<Rightarrow> None | Inr nm \<Rightarrow>
      let u = strip l; g = group_title_of info; c = derive_country g; cats = cats_of g in
      if startswith u ''http'' \<and> c \<noteq> [] \<and> \<not> excluded_cats cats \<and> \<not> news_blocked cats nm
      then Some \<lparr>name = nm, country = c, group_title = g, url = u\<rparr> else None)"

fun scan :: "string list \<Rightarrow> ChannelRecord list" where
  "scan [] = []"
| "scan [l] = []"
| "scan (l # l' # ls) =
     (if startswith l ''#EXTINF:'' then
        (case entry_record l l' of Some r \<Rightarrow> r # scan ls | None \<Rightarrow> scan (l' # ls))
      else scan (l' # ls))"


subsection \<open>The rules as the specification words them\<close>

text \<open>
  The country rule as a priority list of keywords, and the list of all the keywords.
\<close>

definition spec_country :: "string \<Rightarrow> string option" where
  "spec_country g =
     (if py_in ''Canada'' g \<or> py_in ''CA'' g then Some ''CA''
      else if py_in ''United States'' g \<or> py_in ''USA'' g \<or> py_in ''US'' g then Some ''US''
      else if py_in ''United Kingdom'' g \<or> py_in ''UK'' g \<or> py_in ''GB'' g then Some ''GB''
      else if py_in ''Australia'' g \<or> py_in ''AU'' g then Some ''AU''
      else None)"

definition country_keywords :: "string list" where
  "country_keywords = [''Canada'', ''CA'', ''United States'', ''USA'', ''US'',
     ''United Kingdom'', ''UK'', ''GB'', ''Australia'', ''AU'']"


text \<open>
  The gates of the JSON pipeline other than the news rule, and the news rule with the
  allowlist matched by containment.
\<close>

definition json_gates :: "JsonChannel \<Rightarrow> bool" where
  "json_gates ch =
     (ch_country ch \<in> Some ` {''CA'', ''US'', ''GB'', ''AU''} \<and>
      ''eng'' \<in> set (language_codes ch) \<and>
      ch_is_nsfw ch \<in> {None, Some False} \<and>
      set (json_cats ch) \<inter> {''sports'', ''kids'', ''adult'', ''xxx''} = {})"

definition json_news_ok :: "JsonChannel \<Rightarrow> bool" where
  "json_news_ok ch =
     (''news'' \<in> set (json_cats ch) \<longrightarrow>
        (\<exists>n \<in> set allowed_news. py_in n (dict_get [] (ch_name ch))))"


text \<open>The row that the writer produces for one entry of the JSON pipeline.\<close>

definition entry_row :: "ChannelEntry \<Rightarrow> string list" where
  "entry_row e = [entry_id e, entry_name e, entry_network e, entry_country e, entry_logo e]"


subsection \<open>Sample playlists\<close>

text \<open>
  A line feed, and a marker line with the group title \<open>g\<close> and the display name \<open>nm\<close>.
\<close>

definition nl :: string where "nl = [CHR 0x0A]"

definition info_line :: "string \<Rightarrow> string \<Rightarrow> string" where
  "info_line g nm = ''#EXTINF:-1 group-title='' @ [dquote] @ g @ [dquote] @ '','' @ nm"


text \<open>A playlist with one Canadian channel, and the record it yields.\<close>

definition sample_playlist :: string where
  "sample_playlist = ''#EXTM3U'' @ nl @
     info_line ''Canada'' ''CBC Toronto'' @ nl @ ''http://example.com/cbc'' @ nl"

definition sample_record :: ChannelRecord where
  "sample_record = \<lparr>name = ''CBC Toronto'', country = ''CA'', group_title = ''Canada'',
     url = ''http://example.com/cbc''\<rparr>"


text \<open>An entry whose group title names two countries.\<close>

definition priority_lines :: "string list" where
  "priority_lines = [info_line ''USA and Canada'' ''Border TV'', ''http://example.com/b'']"

definition priority_record :: ChannelRecord where
  "priority_record = \<lparr>name = ''Border TV'', country = ''CA'', group_title = ''USA and Canada'',
     url = ''http://example.com/b''\<rparr>"


text \<open>Three entries; the marker line of the second has no comma.\<close>

definition broken_playlist :: string where
  "broken_playlist =
     info_line ''Canada'' ''CBC Toronto'' @ nl @ ''http://example.com/cbc'' @ nl @
     ''#EXTINF:-1 group-title='' @ [dquote] @ ''Canada'' @ [dquote] @ '' CTV Ottawa'' @ nl @
     ''http://example.com/ctv'' @ nl @
     info_line ''Australia'' ''ABC Sydney'' @ nl @ ''http://example.com/abc'' @ nl"

definition later_record :: ChannelRecord where
  "later_record = \<lparr>name = ''ABC Sydney'', country = ''AU'', group_title = ''Australia'',
     url = ''http://example.com/abc''\<rparr>"


text \<open>Sports entries in two letter cases, and country keywords in lower case.\<close>

definition sports_lines :: "string list" where
  "sports_lines = [info_line ''Sports|CA'' ''TSN'', ''http://example.com/tsn'']"

definition sports_upper_lines :: "string list" where
  "sports_upper_lines = [info_line ''SPORTS|ca'' ''TSN'', ''http://example.com/tsn'']"

definition lower_case_lines :: "string list" where
  "lower_case_lines = [info_line ''canada'' ''CBC Toronto'', ''http://example.com/cbc'',
     info_line ''usa'' ''PBS'', ''http://example.com/pbs'']"


text \<open>A URL line that starts with white space, and two marker lines in a row.\<close>

definition indented_lines :: "string list" where
  "indented_lines = [info_line ''Canada'' ''CBC Toronto'', ''  http://example.com/cbc'']"

definition two_marker_lines :: "string list" where
  "two_marker_lines = [info_line ''Australia'' ''Lost'', info_line ''Canada'' ''CBC Toronto'',
     ''http://example.com/cbc'']"


text \<open>A news channel whose name extends an allowlisted name, and one that is not listed.\<close>

definition cnn_lines :: "string list" where
  "cnn_lines = [info_line ''News|US'' ''CNN International'', ''http://example.com/cnn'',
     info_line ''News|US'' ''Fox News'', ''http://example.com/fox'']"

definition cnn_record :: ChannelRecord where
  "cnn_record = \<lparr>name = ''CNN International'', country = ''US'', group_title = ''News|US'',
     url = ''http://example.com/cnn''\<rparr>"


subsection \<open>Sample JSON objects and environments\<close>

text \<open>A general channel and a sports channel from Canada, and a news channel.\<close>

definition sample_channel :: JsonChannel where
  "sample_channel = \<lparr>ch_id = Some ''CBLT.ca'', ch_name = Some ''CBC Toronto'',
     ch_network = Some ''CBC'', ch_country = Some ''CA'',
     ch_logo = Some ''http://example.com/cbc.png'', ch_languages = Some [Some ''fra'', Some ''eng''],
     ch_is_nsfw = Some False, ch_categories = Some [Some ''General'']\<rparr>"

definition sports_channel :: JsonChannel where
  "sports_channel = sample_channel\<lparr>ch_id := Some ''TSN.ca'', ch_name := Some ''TSN'',
     ch_categories := Some [Some ''Sports'']\<rparr>"

definition sample_entry :: ChannelEntry where
  "sample_entry = \<lparr>entry_id = ''CBLT.ca'', entry_name = ''CBC Toronto'', entry_network = ''CBC'',
     entry_country = ''CA'', entry_logo = ''http://example.com/cbc.png''\<rparr>"

definition cnn_channel :: JsonChannel where
  "cnn_channel = \<lparr>ch_id = Some ''CNNInternational.us'', ch_name = Some ''CNN International'',
     ch_network = None, ch_country = Some ''US'', ch_logo = None,
     ch_languages = Some [Some ''eng''], ch_is_nsfw = Some False,
     ch_categories = Some [Some ''News'']\<rparr>"

text \<open>
  A channel whose one category name contains \<open>news\<close> without being \<open>news\<close>, as a JSON
  object and as a playlist entry, under a name that holds no allowlisted name.
\<close>

definition local_news_channel :: JsonChannel where
  "local_news_channel = \<lparr>ch_id = Some ''WNYW.us'', ch_name = Some ''Fox 5'',
     ch_network = None, ch_country = Some ''US'', ch_logo = None,
     ch_languages = Some [Some ''eng''], ch_is_nsfw = Some False,
     ch_categories = Some [Some ''Local News'']\<rparr>"

definition local_news_lines :: "string list" where
  "local_news_lines = [info_line ''Local News|US'' ''Fox 5'', ''http://example.com/fox5'']"


text \<open>
  No files and an empty log; an environment that serves a JSON list; one in which one
  URL times out and every other URL serves the sample playlist; and one in which the log
  cannot be written.
\<close>

definition empty_world :: World where
  "empty_world = \<lparr>files = (\<lambda>p. None), log_lines = []\<rparr>"

definition json_response :: "JsonChannel list \<Rightarrow> Response" where
  "json_response data = \<lparr>status_error = None, body_text = [], body_json = Inr data\<rparr>"

definition env_json :: "JsonChannel list \<Rightarrow> Env" where
  "env_json data = \<lparr>requests_get = (\<lambda>u. Inr (json_response data)),
     open_error = (\<lambda>p. None), log_error = (\<lambda>m. None)\<rparr>"

definition timeout_url :: string where
  "timeout_url = ''https://example.org/languages/eng.m3u''"

definition playlist_response :: Response where
  "playlist_response = \<lparr>status_error = None, body_text = sample_playlist,
     body_json = Inl (Raised ''Expecting value: line 1 column 1 (char 0)'')\<rparr>"

definition env_timeout :: Env where
  "env_timeout = \<lparr>requests_get = (\<lambda>u. if u = timeout_url
        then Inl (Raised ''Read timed out. (read timeout=40)'') else Inr playlist_response),
     open_error = (\<lambda>p. None), log_error = (\<lambda>m. None)\<rparr>"

definition env_log_fails :: Env where
  "env_log_fails = \<lparr>requests_get = (\<lambda>u. Inr playlist_response),
     open_error = (\<lambda>p. None),
     log_error = (\<lambda>m. Some (Raised ''[Errno 28] No space left on device''))\<rparr>"

section \<open>The parser as a scan of the list of lines\<close>

lemma try_body_inner:
  assumes "i + 1 < length lines"
  shows "try_body lines i channels =
     (case display_name (lines ! i) of
        Inl e \<Rightarrow> (Except e, i, channels)
      | Inr nm \<Rightarrow> (case entry_record (lines ! i) (lines ! (i + 1)) of
                    None \<Rightarrow> (Continue, i + 1, channels)
                  | Some r \<Rightarrow> (Normal, i + 1, channels @ [r])))"
  using assms unfolding try_body_def entry_record_def getitem_def
  by (simp add: Let_def split: sum.splits)

lemma try_body_last:
  assumes "i + 1 = length lines"
  shows "try_body lines i channels =
     (case display_name (lines ! i) of
        Inl e \<Rightarrow> (Except e, i, channels)
      | Inr nm \<Rightarrow> (Except IndexError, i + 1, channels))"
  using assms unfolding try_body_def getitem_def
  by (simp add: Let_def split: sum.splits)

lemma entry_record_no_name:
  "display_name info = Inl e \<Longrightarrow> entry_record info l = None"
  by (simp add: entry_record_def)

lemma scan_drop_step:
  assumes "i + 1 < length lines"
  shows "scan (drop i lines) =
     (if startswith (lines ! i) ''#EXTINF:'' then
        (case entry_record (lines ! i) (lines ! (i + 1)) of
           Some r \<Rightarrow> r # scan (drop (i + 2) lines)
         | None \<Rightarrow> scan (drop (i + 1) lines))
      else scan (drop (i + 1) lines))"
proof -
  from assms have "drop i lines = lines ! i # lines ! (i + 1) # drop (i + 2) lines"
    by (metis Cons_nth_drop_Suc Suc_eq_plus1 Suc_lessD add_2_eq_Suc')
  moreover from assms have "drop (i + 1) lines = lines ! (i + 1) # drop (i + 2) lines"
    by (metis Cons_nth_drop_Suc Suc_eq_plus1 add_2_eq_Suc')
  ultimately show ?thesis by (simp split: option.splits)
qed

lemma scan_drop_last:
  assumes "i + 1 = length lines"
  shows "scan (drop i lines) = []"
proof -
  from assms have "drop i lines = [lines ! i]"
    by (metis Cons_nth_drop_Suc Suc_eq_plus1 drop_all lessI order_refl)
  then show ?thesis by simp
qed

lemma parse_loop_done:
  "length lines \<le> i \<Longrightarrow> parse_loop lines i channels = Inr channels"
  by (subst parse_loop.simps) simp

lemma parse_loop_scan:
  "parse_loop lines i channels = Inr (channels @ scan (drop i lines))"
proof (induction lines i channels rule: parse_loop.induct)
  case (1 lines i channels)
  show ?case
  proof (cases "i < length lines")
    case False
    then show ?thesis by (simp add: parse_loop.simps [of lines i])
  next
    case inb: True
    then have g: "getitem lines i = Inr (lines ! i)"
      by (simp add: getitem_def)
    show ?thesis
    proof (cases "startswith (lines ! i) ''#EXTINF:''")
      case False
      with inb g 1(4) have "parse_loop lines i channels
          = Inr (channels @ scan (drop (i + 1) lines))"
        by (simp add: parse_loop.simps [of lines i])
      moreover have "scan (drop i lines) = scan (drop (i + 1) lines)"
      proof (cases "i + 1 < length lines")
        case True
        with False show ?thesis by (simp add: scan_drop_step)
      next
        case False
        with inb have "i + 1 = length lines" by simp
        then show ?thesis by (simp add: scan_drop_last)
      qed
      ultimately show ?thesis by simp
    next
      case marker: True
      show ?thesis
      proof (cases "i + 1 < length lines")
        case False
        with inb have last: "i + 1 = length lines" by simp
        obtain c j chs where tb: "try_body lines i channels = (c, j, chs)"
          by (metis prod_cases3)
        with last have shape: "chs = channels \<and> c \<noteq> Continue \<and> i \<le> j"
          by (auto simp: try_body_last split: sum.splits)
        then have "parse_loop lines (j + 1) chs = Inr channels"
          using last by (simp add: parse_loop_done)
        with inb g marker tb shape have "parse_loop lines i channels = Inr channels"
          by (cases c) (simp_all add: parse_loop.simps [of lines i])
        with last show ?thesis by (simp add: scan_drop_last)
      next
        case more: True
        note step = scan_drop_step [OF more] try_body_inner [OF more, of channels]
        show ?thesis
        proof (cases "display_name (lines ! i)")
          case (Inl e)
          then have tb: "try_body lines i channels = (Except e, i, channels)"
            by (simp add: step)
          with inb g marker 1(3) [OF inb g marker tb [symmetric]]
          have "parse_loop lines i channels = Inr (channels @ scan (drop (i + 1) lines))"
            by (simp add: parse_loop.simps [of lines i])
          with Inl marker show ?thesis
            by (simp add: step entry_record_no_name)
        next
          case (Inr nm)
          show ?thesis
          proof (cases "entry_record (lines ! i) (lines ! (i + 1))")
            case None
            with Inr have tb: "try_body lines i channels = (Continue, i + 1, channels)"
              by (simp add: step)
            with inb g marker 1(2) [OF inb g marker tb [symmetric]]
            have "parse_loop lines i channels = Inr (channels @ scan (drop (i + 1) lines))"
              by (simp add: parse_loop.simps [of lines i])
            with None marker show ?thesis by (simp add: step)
          next
            case (Some r)
            with Inr have tb: "try_body lines i channels = (Normal, i + 1, channels @ [r])"
              by (simp add: step)
            with inb g marker 1(1) [OF inb g marker tb [symmetric]]
            have "parse_loop lines i channels
                = Inr ((channels @ [r]) @ scan (drop (i + 1 + 1) lines))"
              by (simp add: parse_loop.simps [of lines i])
            with Some marker show ?thesis by (simp add: step)
          qed
        qed
      qed
    qed
  qed
qed

lemma parse_m3u_scan: "parse_m3u text = Inr (scan (splitlines text))"
  by (simp add: parse_m3u_def parse_loop_scan)

subsection \<open>Letter case\<close>

lemma isspace_lower_char: "isspace (lower_char c) = isspace c"
proof (cases c)
  case (Char b0 b1 b2 b3 b4 b5 b6 b7)
  then show ?thesis
    by (cases b0; cases b1; cases b2; cases b3; cases b4; cases b5; cases b6; cases b7;
        simp add: lower_char_def isupper_def isspace_def)
qed

lemma is_delim_lower_char: "is_delim (lower_char c) = is_delim c"
proof (cases c)
  case (Char b0 b1 b2 b3 b4 b5 b6 b7)
  then show ?thesis
    by (cases b0; cases b1; cases b2; cases b3; cases b4; cases b5; cases b6; cases b7;
        simp add: lower_char_def isupper_def is_delim_def)
qed

lemma lower_char_idem: "lower_char (lower_char c) = lower_char c"
proof (cases c)
  case (Char b0 b1 b2 b3 b4 b5 b6 b7)
  then show ?thesis
    by (cases b0; cases b1; cases b2; cases b3; cases b4; cases b5; cases b6; cases b7;
        simp add: lower_char_def isupper_def)
qed

lemma lower_idem: "lower (lower s) = lower s"
  by (simp add: lower_def lower_char_idem)

lemma dropWhile_isspace_lower:
  "dropWhile isspace (lower s) = lower (dropWhile isspace s)"
  by (induction s) (simp_all add: lower_def isspace_lower_char)

lemma strip_lower: "strip (lower s) = lower (strip s)"
proof -
  have "rev (lower s) = lower (rev s)" for s
    by (simp add: lower_def rev_map)
  then show ?thesis
    by (simp add: strip_def dropWhile_isspace_lower)
qed

lemma re_split_lower: "re_split (lower s) = map lower (re_split s)"
proof (induction s)
  case Nil
  then show ?case by (simp add: lower_def)
next
  case (Cons c s)
  then have "re_split (map lower_char s) = map lower (re_split s)"
    by (simp add: lower_def)
  then show ?case
    by (cases "re_split s") (simp_all add: lower_def is_delim_lower_char)
qed

lemma cats_of_lower: "cats_of (lower g) = cats_of g"
  by (simp add: cats_of_def re_split_lower strip_lower lower_idem)


subsection \<open>What an emitted record satisfies\<close>

lemma startswith_nonempty: "startswith u (p # ps) \<Longrightarrow> u \<noteq> []"
  by (cases u) auto

lemma derive_country_cases:
  "derive_country g = [] \<or> derive_country g \<in> {''CA'', ''US'', ''GB'', ''AU''}"
  unfolding derive_country_def by simp

lemma entry_record_SomeD:
  assumes "entry_record info l = Some r"
  shows "display_name info = Inr (name r)" "url r = strip l" "startswith (url r) ''http''"
    "group_title r = group_title_of info" "country r = derive_country (group_title r)"
    "country r \<noteq> []" "\<not> excluded_cats (cats_of (group_title r))"
    "\<not> news_blocked (cats_of (group_title r)) (name r)"
  using assms unfolding entry_record_def
  by (auto simp: Let_def split: sum.splits if_splits)

lemma scan_entries:
  "r \<in> set (scan ls) \<Longrightarrow>
     \<exists>info l. startswith info ''#EXTINF:'' \<and> entry_record info l = Some r"
proof (induction ls rule: scan.induct)
  case (3 l l' ls)
  then show ?case
    by (auto split: if_splits option.splits)
qed simp_all

lemma scan_record_props:
  assumes "r \<in> set (scan ls)"
  shows "url r \<noteq> [] \<and> startswith (url r) ''http'' \<and> country r \<in> {''CA'', ''US'', ''GB'', ''AU''}"
proof -
  from assms obtain info l where e: "entry_record info l = Some r"
    using scan_entries by blast
  have "startswith (url r) ''http''" by (rule entry_record_SomeD(3) [OF e])
  moreover from this have "url r \<noteq> []" by (rule startswith_nonempty)
  moreover have "country r \<in> {''CA'', ''US'', ''GB'', ''AU''}"
    using entry_record_SomeD(5,6) [OF e] derive_country_cases [of "group_title r"] by auto
  ultimately show ?thesis by simp
qed

subsection \<open>Entries that add no record\<close>

lemma strip_keeps_head: "\<not> isspace c \<Longrightarrow> \<exists>t. strip (c # cs) = c # t"
proof -
  assume ns: "\<not> isspace c"
  then have "dropWhile isspace (rev cs @ [c]) = dropWhile isspace (rev cs) @ [c]"
    by (induction "rev cs" arbitrary: cs) (auto simp: dropWhile_append)
  with ns show ?thesis by (simp add: strip_def)
qed

lemma marker_not_http:
  assumes "startswith l ''#EXTINF:''"
  shows "\<not> startswith (strip l) ''http''"
proof -
  from assms obtain cs where l: "l = CHR ''#'' # cs"
    by (cases l) auto
  have "\<not> isspace (CHR ''#'')" by (simp add: isspace_def)
  from strip_keeps_head [OF this, of cs] l obtain t where "strip l = CHR ''#'' # t"
    by auto
  then show ?thesis by simp
qed

lemma split_once_None: "c \<notin> set s \<Longrightarrow> split_once [c] s = None"
  by (induction s) auto

lemma display_name_no_comma:
  "CHR '','' \<notin> set info \<Longrightarrow> display_name info = Inl IndexError"
  by (simp add: display_name_def py_split1_def split_once_None getitem_def)

lemma entry_record_not_http:
  "\<not> startswith (strip l) ''http'' \<Longrightarrow> entry_record info l = None"
  by (simp add: entry_record_def Let_def split: sum.splits)

lemma parse_loop_skip:
  assumes "i + 1 < length lines"
    and "entry_record (lines ! i) (lines ! (i + 1)) = None"
  shows "parse_loop lines i channels = parse_loop lines (i + 1) channels"
  using assms by (simp add: parse_loop_scan scan_drop_step)

lemma parse_loop_skip_last:
  assumes "i + 1 = length lines"
  shows "parse_loop lines i channels = parse_loop lines (i + 1) channels"
  using assms by (simp add: parse_loop_scan scan_drop_last)

lemma scan_around_no_comma:
  assumes "startswith bad ''#EXTINF:''" and "CHR '','' \<notin> set bad"
  shows "scan (pre @ bad # rest) = scan pre @ scan rest"
proof (induction pre rule: scan.induct)
  case 1
  from assms show ?case
    by (cases rest) (simp_all add: display_name_no_comma entry_record_no_name)
next
  case (2 l)
  have "scan (bad # rest) = scan rest"
    using assms by (cases rest) (simp_all add: display_name_no_comma entry_record_no_name)
  with assms(1) show ?case
    by (simp add: entry_record_not_http marker_not_http)
next
  case (3 l l' ls)
  then show ?case
    by (simp split: option.splits)
qed


lemma try_body_getitem:
  assumes "getitem lines i = Inr info"
  shows "i < length lines" "lines ! i = info"
  using assms by (auto simp: getitem_def split: if_splits)

lemma try_body_emits:
  assumes "getitem lines i = Inr info" and "try_body lines i channels = (c, j, chs)"
  shows "chs = channels \<or>
     (\<exists>l r. getitem lines (i + 1) = Inr l \<and> entry_record info l = Some r \<and> chs = channels @ [r])"
proof -
  note at = try_body_getitem [OF assms(1)]
  show ?thesis
  proof (cases "i + 1 < length lines")
    case True
    then have "getitem lines (i + 1) = Inr (lines ! (i + 1))"
      by (simp add: getitem_def)
    with assms(2) at(2) True show ?thesis
      by (auto simp: try_body_inner split: sum.splits option.splits)
  next
    case False
    with at(1) have "i + 1 = length lines" by simp
    with assms(2) show ?thesis
      by (auto simp: try_body_last split: sum.splits)
  qed
qed

lemma try_body_no_record:
  assumes "getitem lines i = Inr info" and "try_body lines i channels = (c, j, chs)"
    and "\<And>l. entry_record info l = None"
  shows "chs = channels"
  using try_body_emits [OF assms(1,2)] assms(3) by auto


lemma try_body_skip:
  assumes "getitem lines i = Inr info" and "\<And>l. entry_record info l = None"
  shows "parse_loop lines i channels = parse_loop lines (i + 1) channels"
proof (cases "i + 1 < length lines")
  case True
  with assms show ?thesis
    by (simp add: parse_loop_skip try_body_getitem)
next
  case False
  with try_body_getitem(1) [OF assms(1)] have "i + 1 = length lines" by simp
  then show ?thesis by (rule parse_loop_skip_last)
qed

lemma entry_record_no_country:
  "derive_country (group_title_of info) = [] \<Longrightarrow> entry_record info l = None"
  by (simp add: entry_record_def Let_def split: sum.splits)

lemma entry_record_excluded:
  "excluded_cats (cats_of (group_title_of info)) \<Longrightarrow> entry_record info l = None"
  by (simp add: entry_record_def Let_def split: sum.splits)


subsection \<open>The JSON filter and the writer\<close>

lemma filter_loop_eq:
  "filter_loop data filtered =
     filtered @ map entry_of (filter (\<lambda>ch. json_gates ch \<and> json_news_ok ch) data)"
proof (induction data arbitrary: filtered)
  case Nil
  then show ?case by simp
next
  case (Cons ch data)
  have nsfw: "ch_is_nsfw ch \<noteq> Some True \<longleftrightarrow> ch_is_nsfw ch \<in> {None, Some False}"
    by (cases "ch_is_nsfw ch") auto
  have country: "(case ch_country ch of None \<Rightarrow> True
        | Some c \<Rightarrow> c \<notin> set [''CA'', ''US'', ''GB'', ''AU''])
      \<longleftrightarrow> ch_country ch \<notin> Some ` {''CA'', ''US'', ''GB'', ''AU''}"
    by (cases "ch_country ch") auto
  have cats: "list_ex (\<lambda>x. x \<in> set (json_cats ch)) [''sports'', ''kids'', ''adult'', ''xxx'']
      \<longleftrightarrow> set (json_cats ch) \<inter> {''sports'', ''kids'', ''adult'', ''xxx''} \<noteq> {}"
    by auto
  have news: "(''news'' \<in> set (json_cats ch)
        \<and> \<not> list_ex (\<lambda>n. py_in n (dict_get [] (ch_name ch))) allowed_news)
      \<longleftrightarrow> \<not> json_news_ok ch"
    by (auto simp: json_news_ok_def list_ex_iff)
  show ?case
    unfolding filter_loop.simps country cats news
    using nsfw by (simp add: Cons.IH json_gates_def)
qed

lemma startswith_append: "startswith (p @ b) p"
  by (induction p) simp_all

lemma py_in_append: "py_in p (a @ p @ b)"
proof (induction a)
  case Nil
  show ?case
  proof (cases "p @ b")
    case Nil
    then show ?thesis by simp
  next
    case (Cons c cs)
    with startswith_append [of p b] have "startswith (c # cs) p" by simp
    with Cons show ?thesis by simp
  qed
next
  case (Cons x a)
  then show ?case by simp
qed

lemma dict_to_list_entry:
  "dict_to_list [''id'', ''name'', ''network'', ''country'', ''logo''] (entry_dict e) = Inr (entry_row e)"
  by (simp add: dict_to_list_def entry_dict_def keys_def entry_row_def dict_get_def)

lemma writerows_entries:
  "writerows [''id'', ''name'', ''network'', ''country'', ''logo''] (map entry_dict es) written
     = (None, written @ map entry_row es)"
  by (induction es arbitrary: written) (simp_all add: dict_to_list_entry)

lemma write_csv_entries:
  "write_csv (if es \<noteq> [] then keys (entry_dict (hd es)) else [''name'']) (map entry_dict es)
     = (None, (if es = [] then [''name''] else [''id'', ''name'', ''network'', ''country'', ''logo''])
              # map entry_row es)"
proof (cases es)
  case Nil
  then show ?thesis by (simp add: write_csv_def)
next
  case (Cons e es')
  have "keys (entry_dict e) = [''id'', ''name'', ''network'', ''country'', ''logo'']"
    by (simp add: keys_def entry_dict_def)
  with Cons show ?thesis
    using writerows_entries [of "e # es'"] by (simp add: write_csv_def)
qed

lemma run_task_try_json:
  assumes "requests_get env task_url = Inr r" and "status_error r = None"
    and "body_json r = Inr data"
    and "open_error env (os_path_join output_dir filename) = None"
  shows "run_task_try env output_dir task_url filename True w =
     (Inr (filename @ '' '' @ arrow @ '' '' @ str_nat (length (filter_loop data [])) @ '' channels''),
      w\<lparr>files := (files w)(os_path_join output_dir filename \<mapsto>
          (if filter_loop data [] = [] then [''name'']
           else [''id'', ''name'', ''network'', ''country'', ''logo''])
          # map entry_row (filter_loop data []))\<rparr>)"
  using assms
  by (simp add: run_task_try_def write_file_def Let_def write_csv_entries)


subsection \<open>What a task does to the files\<close>

lemma write_file_shape:
  "\<exists>err upd. \<forall>w. write_file env path fieldnames rowdicts w
       = (err, case upd of None \<Rightarrow> w | Some rows \<Rightarrow> w\<lparr>files := (files w)(path \<mapsto> rows)\<rparr>)"
proof (cases "open_error env path")
  case None
  obtain err rows where "write_csv fieldnames rowdicts = (err, rows)"
    by (cases "write_csv fieldnames rowdicts")
  with None have "write_file env path fieldnames rowdicts w
       = (err, case Some rows of None \<Rightarrow> w | Some rows \<Rightarrow> w\<lparr>files := (files w)(path \<mapsto> rows)\<rparr>)" for w
    by (simp add: write_file_def)
  then show ?thesis by blast
next
  case (Some e)
  then have "write_file env path fieldnames rowdicts w
       = (Some e, case None of None \<Rightarrow> w | Some rows \<Rightarrow> w\<lparr>files := (files w)(path \<mapsto> rows)\<rparr>)" for w
    by (simp add: write_file_def)
  then show ?thesis by blast
qed

lemma after_write_shape:
  "\<exists>res upd. \<forall>w. (case write_file env path fieldnames rowdicts w of
             (Some e, w') \<Rightarrow> (Inl e, w')
           | (None, w') \<Rightarrow> (Inr msg, w'))
       = (res :: exn + string,
          case upd of None \<Rightarrow> w | Some rows \<Rightarrow> w\<lparr>files := (files w)(path \<mapsto> rows)\<rparr>)"
proof -
  obtain err upd where wf: "\<And>w. write_file env path fieldnames rowdicts w
       = (err, case upd of None \<Rightarrow> w | Some rows \<Rightarrow> w\<lparr>files := (files w)(path \<mapsto> rows)\<rparr>)"
    using write_file_shape [where env = env and path = path and fieldnames = fieldnames
          and rowdicts = rowdicts] by blast
  have "(case write_file env path fieldnames rowdicts w of
             (Some e, w') \<Rightarrow> (Inl e, w')
           | (None, w') \<Rightarrow> (Inr msg, w'))
       = (case err of Some e \<Rightarrow> Inl e | None \<Rightarrow> Inr msg,
          case upd of None \<Rightarrow> w | Some rows \<Rightarrow> w\<lparr>files := (files w)(path \<mapsto> rows)\<rparr>)" for w
    by (simp add: wf split: option.splits)
  then show ?thesis by blast
qed

lemma run_task_try_shape:
  "\<exists>res upd. \<forall>w. run_task_try env output_dir task_url filename is_json w
       = (res, case upd of None \<Rightarrow> w
               | Some rows \<Rightarrow> w\<lparr>files := (files w)(os_path_join output_dir filename \<mapsto> rows)\<rparr>)"
proof -
  let ?path = "os_path_join output_dir filename"
  have keep: "(x, w) = (x, case None of None \<Rightarrow> w
      | Some rows \<Rightarrow> w\<lparr>files := (files w)(?path \<mapsto> rows)\<rparr>)" for x :: "exn + string" and w
    by simp
  show ?thesis
  proof (cases "requests_get env task_url")
    case (Inl e)
    then have "run_task_try env output_dir task_url filename is_json w = (Inl e, w)" for w
      by (simp add: run_task_try_def)
    then show ?thesis using keep by metis
  next
    case (Inr r)
    show ?thesis
    proof (cases "status_error r")
      case (Some e)
      with Inr have "run_task_try env output_dir task_url filename is_json w = (Inl e, w)" for w
        by (simp add: run_task_try_def)
      then show ?thesis using keep by metis
    next
      case None
      show ?thesis
      proof (cases is_json)
        case True
        show ?thesis
        proof (cases "body_json r")
          case (Inl e)
          with Inr None True
          have "run_task_try env output_dir task_url filename is_json w = (Inl e, w)" for w
            by (simp add: run_task_try_def)
          then show ?thesis using keep by metis
        next
          case data: (Inr data)
          let ?filtered = "filter_loop data []"
          obtain res upd where "\<And>w. (case write_file env ?path
                (if ?filtered \<noteq> [] then keys (entry_dict (hd ?filtered)) else [''name''])
                (map entry_dict ?filtered) w of
             (Some e, w') \<Rightarrow> (Inl e, w')
           | (None, w') \<Rightarrow> (Inr (filename @ '' '' @ arrow @ '' '' @ str_nat (length ?filtered)
                 @ '' channels''), w'))
            = (res :: exn + string,
               case upd of None \<Rightarrow> w | Some rows \<Rightarrow> w\<lparr>files := (files w)(?path \<mapsto> rows)\<rparr>)"
            using after_write_shape [where env = env and path = "?path"
                  and rowdicts = "map entry_dict ?filtered"
                  and fieldnames = "if ?filtered \<noteq> [] then keys (entry_dict (hd ?filtered)) else [''name'']"
                  and msg = "filename @ '' '' @ arrow @ '' '' @ str_nat (length ?filtered) @ '' channels''"]
            by blast
          with Inr None True data
          have "run_task_try env output_dir task_url filename is_json w
             = (res, case upd of None \<Rightarrow> w
                | Some rows \<Rightarrow> w\<lparr>files := (files w)(?path \<mapsto> rows)\<rparr>)" for w
            by (simp add: run_task_try_def Let_def)
          then show ?thesis by blast
        qed
      next
        case False
        show ?thesis
        proof (cases "parse_m3u (body_text r)")
          case (Inl e)
          with Inr None False
          have "run_task_try env output_dir task_url filename is_json w = (Inl e, w)" for w
            by (simp add: run_task_try_def)
          then show ?thesis using keep by metis
        next
          case chs: (Inr chs)
          obtain res upd where "\<And>w. (case write_file env ?path
                [''name'', ''country'', ''group_title'', ''url''] (map record_dict chs) w of
             (Some e, w') \<Rightarrow> (Inl e, w')
           | (None, w') \<Rightarrow> (Inr (filename @ '' '' @ arrow @ '' '' @ str_nat (length chs)
                 @ '' channels''), w'))
            = (res :: exn + string,
               case upd of None \<Rightarrow> w | Some rows \<Rightarrow> w\<lparr>files := (files w)(?path \<mapsto> rows)\<rparr>)"
            using after_write_shape [where env = env and path = "?path"
                  and rowdicts = "map record_dict chs"
                  and fieldnames = "[''name'', ''country'', ''group_title'', ''url'']"
                  and msg = "filename @ '' '' @ arrow @ '' '' @ str_nat (length chs) @ '' channels''"]
            by blast
          with Inr None False chs
          have "run_task_try env output_dir task_url filename is_json w
             = (res, case upd of None \<Rightarrow> w
                | Some rows \<Rightarrow> w\<lparr>files := (files w)(?path \<mapsto> rows)\<rparr>)" for w
            by (simp add: run_task_try_def Let_def)
          then show ?thesis by blast
        qed
      qed
    qed
  qed
qed

lemma run_task_try_result:
  "fst (run_task_try env output_dir task_url filename is_json w)
     = fst (run_task_try env output_dir task_url filename is_json w2)"
proof -
  obtain res upd where "\<And>w. run_task_try env output_dir task_url filename is_json w
       = (res, case upd of None \<Rightarrow> w
               | Some rows \<Rightarrow> w\<lparr>files := (files w)(os_path_join output_dir filename \<mapsto> rows)\<rparr>)"
    using run_task_try_shape [where env = env and output_dir = output_dir
          and task_url = task_url and filename = filename and is_json = is_json] by blast
  then show ?thesis by simp
qed

lemma run_task_try_files:
  assumes "files w q = files w2 q"
  shows "files (snd (run_task_try env output_dir task_url filename is_json w)) q
     = files (snd (run_task_try env output_dir task_url filename is_json w2)) q"
proof -
  obtain res upd where "\<And>w. run_task_try env output_dir task_url filename is_json w
       = (res, case upd of None \<Rightarrow> w
               | Some rows \<Rightarrow> w\<lparr>files := (files w)(os_path_join output_dir filename \<mapsto> rows)\<rparr>)"
    using run_task_try_shape [where env = env and output_dir = output_dir
          and task_url = task_url and filename = filename and is_json = is_json] by blast
  with assms show ?thesis by (simp split: option.splits)
qed

lemma run_task_try_other_files:
  assumes "q \<noteq> os_path_join output_dir filename"
  shows "files (snd (run_task_try env output_dir task_url filename is_json w)) q = files w q"
proof -
  obtain res upd where "\<And>w. run_task_try env output_dir task_url filename is_json w
       = (res, case upd of None \<Rightarrow> w
               | Some rows \<Rightarrow> w\<lparr>files := (files w)(os_path_join output_dir filename \<mapsto> rows)\<rparr>)"
    using run_task_try_shape [where env = env and output_dir = output_dir
          and task_url = task_url and filename = filename and is_json = is_json] by blast
  with assms show ?thesis by (simp split: option.splits)
qed

lemma run_task_try_fetch_error:
  assumes "requests_get env task_url = Inl e"
  shows "run_task_try env output_dir task_url filename is_json w = (Inl e, w)"
  using assms by (simp add: run_task_try_def)

lemma handler_fst:
  "fst (case p of (Inl e, w') \<Rightarrow> (Inr (f @ '' FAILED: '' @ exn_text e), w')
           | (Inr s, w') \<Rightarrow> (Inr s, w'))
      = (case fst p of Inl e \<Rightarrow> Inr (f @ '' FAILED: '' @ exn_text e) | Inr s \<Rightarrow> Inr s)"
  for p :: "(exn + string) \<times> World"
  by (cases p) (simp split: sum.splits)

lemma handler_snd:
  "snd (case p of (Inl e, w') \<Rightarrow> (Inr (f @ '' FAILED: '' @ exn_text e), w')
           | (Inr s, w') \<Rightarrow> (Inr s, w')) = snd p"
  for p :: "(exn + string) \<times> World"
  by (cases p) (simp split: sum.splits)

lemma run_task_result:
  "fst (run_task env output_dir task_name task_url filename is_json w)
     = fst (run_task env output_dir task_name task_url filename is_json w2)"
proof (cases "log_error env (start_message task_name)")
  case None
  let ?w = "w\<lparr>log_lines := log_lines w @ [start_message task_name]\<rparr>"
  let ?w2 = "w2\<lparr>log_lines := log_lines w2 @ [start_message task_name]\<rparr>"
  from None run_task_try_result [of env output_dir task_url filename is_json ?w ?w2]
  show ?thesis
    unfolding run_task_def Let_def
    by (simp add: handler_fst)
next
  case (Some e)
  then show ?thesis
    unfolding run_task_def Let_def by simp
qed

lemma run_task_files:
  assumes "files w q = files w2 q"
  shows "files (snd (run_task env output_dir task_name task_url filename is_json w)) q
     = files (snd (run_task env output_dir task_name task_url filename is_json w2)) q"
proof (cases "log_error env (start_message task_name)")
  case None
  let ?w = "w\<lparr>log_lines := log_lines w @ [start_message task_name]\<rparr>"
  let ?w2 = "w2\<lparr>log_lines := log_lines w2 @ [start_message task_name]\<rparr>"
  from assms have "files ?w q = files ?w2 q" by simp
  from None run_task_try_files [OF this, of env output_dir task_url filename is_json]
  show ?thesis
    unfolding run_task_def Let_def
    by (simp add: handler_snd)
next
  case (Some e)
  with assms show ?thesis
    unfolding run_task_def Let_def by simp
qed


subsection \<open>The country chain\<close>

lemma derive_country_spec:
  "derive_country g = (case spec_country g of None \<Rightarrow> [] | Some k \<Rightarrow> k)"
  by (simp add: derive_country_def spec_country_def)


section \<open>The properties\<close>

subsection \<open>The news allowlist\<close>

text \<open>
  C1, as the code has it. The allowlist is matched by containment, and the two
  pipelines recognise a news record differently: a playlist record is a news record when
  its joined lower-cased category string contains \<open>news\<close>, a JSON record when one of its
  lower-cased category names is \<open>news\<close> itself. A news record is kept only if its display
  name contains one of MSNBC, CNN, BBC, CBC News and CTV News as a substring, and is
  dropped otherwise; any other record is decided by the other rules alone. For a playlist
  entry with a display name, a record is appended exactly when the next line is a URL, a
  country is found, no excluded category occurs and, if the joined category string
  contains \<open>news\<close>, the name contains an allowlisted name; the appended record is the
  entry's. For the JSON list, the emitted entries are those of the objects that pass the
  other gates and, if \<open>news\<close> is one of their category names, have such a name; an
  object none of whose category names is \<open>news\<close> is emitted exactly when it passes the
  other gates, whatever its name and even if a longer category name contains \<open>news\<close>.
\<close>

theorem news_rule_substring:
  assumes "getitem lines i = Inr info" and "display_name info = Inr nm"
    and "try_body lines i channels = (c, j, chs)"
  shows "(chs \<noteq> channels \<longleftrightarrow>
            (\<exists>l. getitem lines (i + 1) = Inr l \<and> startswith (strip l) ''http'') \<and>
            derive_country (group_title_of info) \<noteq> [] \<and>
            \<not> excluded_cats (cats_of (group_title_of info)) \<and>
            (py_in ''news'' (join '' '' (cats_of (group_title_of info)))
               \<longrightarrow> (\<exists>n \<in> set allowed_news. py_in n nm))) \<and>
         (chs \<noteq> channels \<longrightarrow> chs = channels @ [\<lparr>name = nm,
            country = derive_country (group_title_of info),
            group_title = group_title_of info,
            url = strip (lines ! (i + 1))\<rparr>]) \<and>
         filter_loop data [] = map entry_of (filter (\<lambda>ch. json_gates ch \<and>
            (''news'' \<in> set (json_cats ch)
               \<longrightarrow> (\<exists>n \<in> set allowed_news. py_in n (dict_get [] (ch_name ch))))) data) \<and>
         (''news'' \<notin> set (json_cats ch) \<longrightarrow>
            filter_loop [ch] [] = (if json_gates ch then [entry_of ch] else []))"
proof -
  note at = try_body_getitem [OF assms(1)]
  have single: "''news'' \<notin> set (json_cats ch) \<longrightarrow>
            filter_loop [ch] [] = (if json_gates ch then [entry_of ch] else [])"
    by (simp add: filter_loop_eq json_news_ok_def)
  have json: "filter_loop data [] = map entry_of (filter (\<lambda>ch. json_gates ch \<and>
            (''news'' \<in> set (json_cats ch)
               \<longrightarrow> (\<exists>n \<in> set allowed_news. py_in n (dict_get [] (ch_name ch))))) data)"
    by (simp add: filter_loop_eq json_news_ok_def)
  have playlist: "(chs \<noteq> channels \<longleftrightarrow>
            (\<exists>l. getitem lines (i + 1) = Inr l \<and> startswith (strip l) ''http'') \<and>
            derive_country (group_title_of info) \<noteq> [] \<and>
            \<not> excluded_cats (cats_of (group_title_of info)) \<and>
            (py_in ''news'' (join '' '' (cats_of (group_title_of info)))
               \<longrightarrow> (\<exists>n \<in> set allowed_news. py_in n nm))) \<and>
         (chs \<noteq> channels \<longrightarrow> chs = channels @ [\<lparr>name = nm,
            country = derive_country (group_title_of info),
            group_title = group_title_of info,
            url = strip (lines ! (i + 1))\<rparr>])"
  proof (cases "i + 1 < length lines")
    case True
    then have ex: "(\<exists>l. getitem lines (i + 1) = Inr l \<and> startswith (strip l) ''http'')
        \<longleftrightarrow> startswith (strip (lines ! (i + 1))) ''http''"
      by (simp add: getitem_def)
    from assms(2,3) at(2) True show ?thesis
      unfolding ex
      by (auto simp: try_body_inner entry_record_def news_blocked_def list_ex_iff Let_def
          split: if_splits)
  next
    case False
    with at(1) have last: "i + 1 = length lines" by simp
    then have ex: "\<not> (\<exists>l. getitem lines (i + 1) = Inr l \<and> startswith (strip l) ''http'')"
      by (simp add: getitem_def)
    from assms(2,3) at(2) last show ?thesis
      using ex by (auto simp: try_body_last)
  qed
  show ?thesis
    by (rule conjI [OF conjunct1 [OF playlist]
          conjI [OF conjunct2 [OF playlist] conjI [OF json single]]])
qed

text \<open>
  C1 as stated fails in two ways. CNN International under a news category is kept in
  both pipelines, although the name is none of the five allowlisted names. And the JSON
  object with the category Local News and the name Fox 5 is kept, although its joined
  lower-cased category string contains \<open>news\<close> and its name holds no allowlisted name:
  the JSON loop asks for a category name equal to \<open>news\<close>.
\<close>

theorem news_exact_match_counterexample:
  "parse_loop cnn_lines 0 [] = Inr [cnn_record] \<and>
   py_in ''news'' (join '' '' (cats_of (group_title cnn_record))) \<and>
   name cnn_record \<notin> set allowed_news \<and>
   filter_loop [cnn_channel] [] = [entry_of cnn_channel] \<and>
   ''news'' \<in> set (json_cats cnn_channel) \<and>
   entry_name (entry_of cnn_channel) \<notin> set allowed_news \<and>
   filter_loop [local_news_channel] [] = [entry_of local_news_channel] \<and>
   py_in ''news'' (join '' '' (json_cats local_news_channel)) \<and>
   entry_name (entry_of local_news_channel) = ''Fox 5'' \<and>
   \<not> list_ex (\<lambda>n. py_in n ''Fox 5'') allowed_news"
  by code_simp

text \<open>
  CNN International is kept and Fox News is dropped under the same news category. The
  category Local News makes a news record of the playlist entry, which is dropped, and
  not of the JSON object, which is kept.
\<close>

theorem news_rule_substring_witness:
  "getitem cnn_lines 0 = Inr (info_line ''News|US'' ''CNN International'') \<and>
   display_name (info_line ''News|US'' ''CNN International'') = Inr ''CNN International'' \<and>
   try_body cnn_lines 0 [] = (Normal, 1, [cnn_record]) \<and>
   py_in ''news'' (join '' '' (cats_of ''News|US'')) \<and>
   (\<exists>n \<in> set allowed_news. py_in n ''CNN International'') \<and>
   getitem cnn_lines 2 = Inr (info_line ''News|US'' ''Fox News'') \<and>
   display_name (info_line ''News|US'' ''Fox News'') = Inr ''Fox News'' \<and>
   try_body cnn_lines 2 [cnn_record] = (Continue, 3, [cnn_record]) \<and>
   \<not> (\<exists>n \<in> set allowed_news. py_in n ''Fox News'') \<and>
   ''news'' \<notin> set (json_cats local_news_channel) \<and>
   json_gates local_news_channel \<and>
   filter_loop [local_news_channel] [] = [entry_of local_news_channel] \<and>
   py_in ''news'' (join '' '' (cats_of ''Local News|US'')) \<and>
   parse_loop local_news_lines 0 [] = Inr []"
proof -
  have a: "getitem cnn_lines 0 = Inr (info_line ''News|US'' ''CNN International'')"
    and b: "display_name (info_line ''News|US'' ''CNN International'') = Inr ''CNN International''"
    and c: "try_body cnn_lines 0 [] = (Normal, 1, [cnn_record])"
    and g: "group_title_of (info_line ''News|US'' ''CNN International'') = ''News|US''"
    and n: "py_in ''news'' (join '' '' (cats_of ''News|US''))"
    by code_simp+
  have a': "getitem cnn_lines 2 = Inr (info_line ''News|US'' ''Fox News'')"
    and b': "display_name (info_line ''News|US'' ''Fox News'') = Inr ''Fox News''"
    and c': "try_body cnn_lines 2 [cnn_record] = (Continue, 3, [cnn_record])"
    and g': "group_title_of (info_line ''News|US'' ''Fox News'') = ''News|US''"
    and u': "getitem cnn_lines (2 + 1) = Inr ''http://example.com/fox''"
       "startswith (strip ''http://example.com/fox'') ''http''"
       "derive_country ''News|US'' \<noteq> []" "\<not> excluded_cats (cats_of ''News|US'')"
    by code_simp+
  have j: "''news'' \<notin> set (json_cats local_news_channel)"
    and k: "json_gates local_news_channel"
    and m: "py_in ''news'' (join '' '' (cats_of ''Local News|US''))"
    and p: "parse_loop local_news_lines 0 [] = Inr []"
    by code_simp+
  from news_rule_substring [OF a b c] g n
  have yes: "\<exists>n \<in> set allowed_news. py_in n ''CNN International''"
    by simp
  from news_rule_substring [OF a' b' c'] g' n u'
  have no: "\<not> (\<exists>n \<in> set allowed_news. py_in n ''Fox News'')"
    by simp
  from news_rule_substring [OF a b c, of _ local_news_channel] j k
  have kept: "filter_loop [local_news_channel] [] = [entry_of local_news_channel]"
    by simp
  from a b c n yes a' b' c' no j k kept m p show ?thesis
    by simp
qed

subsection \<open>Records of the playlist parser\<close>

text \<open>
  C2. For every playlist text the parser returns a list of records and raises nothing,
  and every record of the list has a non-empty \<open>url\<close> that starts with \<open>http\<close> and a
  \<open>country\<close> that is one of CA, US, GB and AU.
\<close>

theorem parse_m3u_url_country:
  "\<exists>channels. parse_m3u text = Inr channels \<and>
     (\<forall>r \<in> set channels. url r \<noteq> [] \<and> startswith (url r) ''http'' \<and>
        country r \<in> {''CA'', ''US'', ''GB'', ''AU''})"
  unfolding parse_m3u_scan using scan_record_props by blast

text \<open>
  A playlist with one Canadian channel: its one record has such a URL and country.
\<close>

theorem parse_m3u_url_country_witness:
  "parse_m3u sample_playlist = Inr [sample_record] \<and> url sample_record \<noteq> [] \<and>
   startswith (url sample_record) ''http'' \<and> country sample_record \<in> {''CA'', ''US'', ''GB'', ''AU''}"
proof -
  have run: "parse_m3u sample_playlist = Inr [sample_record]"
    by code_simp
  with parse_m3u_url_country [of sample_playlist] show ?thesis
    by auto
qed

subsection \<open>Entries of the JSON pipeline\<close>

text \<open>
  C3. For every list of JSON channel objects, every entry that the filtering loop emits
  is the projection of an object of the list whose country is one of CA, US, GB and AU,
  whose language codes contain \<open>eng\<close>, whose NSFW flag is false or absent, and none of
  whose lower-cased category names is one of sports, kids, adult and xxx.
\<close>

theorem filter_loop_gates:
  assumes "e \<in> set (filter_loop data [])"
  shows "\<exists>ch \<in> set data. e = entry_of ch \<and>
           ch_country ch \<in> Some ` {''CA'', ''US'', ''GB'', ''AU''} \<and>
           ''eng'' \<in> set (language_codes ch) \<and>
           ch_is_nsfw ch \<in> {None, Some False} \<and>
           set (json_cats ch) \<inter> {''sports'', ''kids'', ''adult'', ''xxx''} = {}"
  using assms by (auto simp: filter_loop_eq json_gates_def)

text \<open>
  Of a sports channel and a general channel from Canada, only the second is emitted.
\<close>

theorem filter_loop_gates_witness:
  "filter_loop [sports_channel, sample_channel] [] = [sample_entry] \<and>
   (\<exists>ch \<in> set [sports_channel, sample_channel]. sample_entry = entry_of ch \<and>
      ch_country ch \<in> Some ` {''CA'', ''US'', ''GB'', ''AU''} \<and>
      ''eng'' \<in> set (language_codes ch) \<and>
      ch_is_nsfw ch \<in> {None, Some False} \<and>
      set (json_cats ch) \<inter> {''sports'', ''kids'', ''adult'', ''xxx''} = {})"
proof -
  have run: "filter_loop [sports_channel, sample_channel] [] = [sample_entry]"
    by code_simp
  then have "sample_entry \<in> set (filter_loop [sports_channel, sample_channel] [])"
    by simp
  from filter_loop_gates [OF this] run show ?thesis
    by simp
qed

subsection \<open>Country by priority\<close>

text \<open>
  C4. For the entry whose marker line is \<open>info\<close>, the country is derived from the group
  title by substring tests in a fixed order (\<open>spec_country\<close>): Canada or CA gives CA;
  else United States, USA or US gives US; else United Kingdom, UK or GB gives GB; else
  Australia or AU gives AU. A record that the entry appends carries that country, and
  when no keyword occurs the entry appends no record.
\<close>

theorem try_body_country_priority:
  assumes "getitem lines i = Inr info" and "try_body lines i channels = (c, j, chs)"
  shows "case spec_country (group_title_of info) of
           None \<Rightarrow> derive_country (group_title_of info) = [] \<and> chs = channels
         | Some k \<Rightarrow> derive_country (group_title_of info) = k \<and>
             (chs = channels \<or>
              (\<exists>r. chs = channels @ [r] \<and> country r = k \<and> group_title r = group_title_of info))"
proof (cases "spec_country (group_title_of info)")
  case None
  then have "derive_country (group_title_of info) = []"
    by (simp add: derive_country_spec)
  then have "entry_record info l = None" for l
    by (simp add: entry_record_def Let_def split: sum.splits)
  with try_body_emits [OF assms] None \<open>derive_country (group_title_of info) = []\<close>
  show ?thesis by auto
next
  case (Some k)
  then have k: "derive_country (group_title_of info) = k"
    by (simp add: derive_country_spec)
  from try_body_emits [OF assms] show ?thesis
  proof
    assume "chs = channels"
    with Some k show ?thesis by simp
  next
    assume "\<exists>l r. getitem lines (i + 1) = Inr l \<and> entry_record info l = Some r \<and> chs = channels @ [r]"
    then obtain l r where e: "entry_record info l = Some r" and chs: "chs = channels @ [r]"
      by blast
    from entry_record_SomeD(4,5) [OF e] k have "country r = k" "group_title r = group_title_of info"
      by simp_all
    with Some k chs show ?thesis by simp
  qed
qed

text \<open>
  A group title that names both the USA and Canada: the Canadian keyword wins.
\<close>

theorem try_body_country_priority_witness:
  "getitem priority_lines 0 = Inr (info_line ''USA and Canada'' ''Border TV'') \<and>
   try_body priority_lines 0 [] = (Normal, 1, [priority_record]) \<and>
   spec_country ''USA and Canada'' = Some ''CA'' \<and>
   py_in ''USA'' ''USA and Canada'' \<and>
   derive_country ''USA and Canada'' = ''CA'' \<and> country priority_record = ''CA''"
proof -
  have a: "getitem priority_lines 0 = Inr (info_line ''USA and Canada'' ''Border TV'')"
    by code_simp
  have b: "try_body priority_lines 0 [] = (Normal, 1, [priority_record])"
    by code_simp
  have g: "group_title_of (info_line ''USA and Canada'' ''Border TV'') = ''USA and Canada''"
    by code_simp
  have s: "spec_country ''USA and Canada'' = Some ''CA''"
    by code_simp
  have u: "py_in ''USA'' ''USA and Canada''"
    by code_simp
  have r: "country priority_record = ''CA''"
    by code_simp
  from try_body_country_priority [OF a b] g s have "derive_country ''USA and Canada'' = ''CA''"
    by simp
  with a b s u r show ?thesis by simp
qed

subsection \<open>A marker line without a comma\<close>

text \<open>
  C5. When a playlist text holds a marker line \<open>bad\<close> without a comma, the parser
  raises nothing to its caller: the \<open>try\<close> body at that line ends in the \<open>IndexError\<close> that
  the loop swallows, with no record appended, and the result is the records of the lines
  before \<open>bad\<close> followed by the records of the lines after it, so every later entry is
  parsed as it is without the bad one.
\<close>

theorem parse_m3u_skips_entry_without_comma:
  assumes "splitlines text = pre @ bad # rest"
    and "startswith bad ''#EXTINF:''" and "CHR '','' \<notin> set bad"
  shows "\<exists>before after. parse_loop pre 0 [] = Inr before \<and> parse_loop rest 0 [] = Inr after \<and>
           parse_m3u text = Inr (before @ after) \<and>
           try_body (splitlines text) (length pre) channels
             = (Except IndexError, length pre, channels)"
proof -
  have "parse_m3u text = Inr (scan pre @ scan rest)"
    using assms by (simp add: parse_m3u_scan scan_around_no_comma)
  moreover have "try_body (splitlines text) (length pre) channels
      = (Except IndexError, length pre, channels)"
    using assms(1,3)
    by (simp add: try_body_def getitem_def display_name_no_comma)
  ultimately show ?thesis
    by (simp add: parse_loop_scan)
qed

text \<open>
  Three entries, the second without a comma: the first and the third are emitted.
\<close>

theorem parse_m3u_skips_entry_without_comma_witness:
  "splitlines broken_playlist =
     [info_line ''Canada'' ''CBC Toronto'', ''http://example.com/cbc'']
     @ (''#EXTINF:-1 group-title='' @ [dquote] @ ''Canada'' @ [dquote] @ '' CTV Ottawa'')
     # [''http://example.com/ctv'', info_line ''Australia'' ''ABC Sydney'', ''http://example.com/abc''] \<and>
   parse_loop [info_line ''Canada'' ''CBC Toronto'', ''http://example.com/cbc''] 0 [] = Inr [sample_record] \<and>
   parse_loop [''http://example.com/ctv'', info_line ''Australia'' ''ABC Sydney'', ''http://example.com/abc''] 0 []
     = Inr [later_record] \<and>
   parse_m3u broken_playlist = Inr [sample_record, later_record]"
proof -
  let ?pre = "[info_line ''Canada'' ''CBC Toronto'', ''http://example.com/cbc'']"
  let ?bad = "''#EXTINF:-1 group-title='' @ [dquote] @ ''Canada'' @ [dquote] @ '' CTV Ottawa''"
  let ?rest = "[''http://example.com/ctv'', info_line ''Australia'' ''ABC Sydney'', ''http://example.com/abc'']"
  have s: "splitlines broken_playlist = ?pre @ ?bad # ?rest"
    by code_simp
  have m: "startswith ?bad ''#EXTINF:''"
    by code_simp
  have n: "CHR '','' \<notin> set ?bad"
    by code_simp
  have p: "parse_loop ?pre 0 [] = Inr [sample_record]"
    by code_simp
  have r: "parse_loop ?rest 0 [] = Inr [later_record]"
    by code_simp
  from parse_m3u_skips_entry_without_comma [OF s m n, of "[]"] p r
  have "parse_m3u broken_playlist = Inr [sample_record, later_record]"
    by auto
  with s p r show ?thesis by simp
qed

subsection \<open>Exceptions at the task boundary\<close>

text \<open>
  C6, as the code has it. The call of \<open>log\<close> stands before the \<open>try\<close> statement, so the
  claim holds once that call has returned: \<open>run_task\<close> then returns a string and raises
  nothing; when fetching, checking the status, decoding, parsing or writing raises \<open>e\<close>,
  the string is the file name, \<open>FAILED:\<close> and the text of \<open>e\<close>, so it contains both; when
  the fetch itself raises, no file is touched. Whatever this task did, another task
  returns the same result after it as without it, and writes the same file when its
  file name differs.
\<close>

theorem run_task_catches:
  assumes "log_error env (start_message task_name) = None"
  shows "\<exists>s w'. run_task env output_dir task_name task_url filename is_json w = (Inr s, w') \<and>
     (\<forall>e. fst (run_task_try env output_dir task_url filename is_json w) = Inl e \<longrightarrow>
        s = filename @ '' FAILED: '' @ exn_text e \<and> py_in filename s \<and> py_in (exn_text e) s) \<and>
     (\<forall>e. requests_get env task_url = Inl e \<longrightarrow>
        s = filename @ '' FAILED: '' @ exn_text e \<and> files w' = files w) \<and>
     fst (run_task env output_dir name2 url2 filename2 is_json2 w')
       = fst (run_task env output_dir name2 url2 filename2 is_json2 w) \<and>
     (filename2 \<noteq> filename \<longrightarrow>
        files (snd (run_task env output_dir name2 url2 filename2 is_json2 w'))
              (os_path_join output_dir filename2)
        = files (snd (run_task env output_dir name2 url2 filename2 is_json2 w))
              (os_path_join output_dir filename2))"
proof -
  let ?w1 = "w\<lparr>log_lines := log_lines w @ [start_message task_name]\<rparr>"
  obtain res w' where t: "run_task_try env output_dir task_url filename is_json ?w1 = (res, w')"
    by (cases "run_task_try env output_dir task_url filename is_json ?w1")
  have res: "fst (run_task_try env output_dir task_url filename is_json w) = res"
    using run_task_try_result [of env output_dir task_url filename is_json w ?w1] t by simp
  define s where "s = (case res of Inl e \<Rightarrow> filename @ '' FAILED: '' @ exn_text e | Inr m \<Rightarrow> m)"
  have run: "run_task env output_dir task_name task_url filename is_json w = (Inr s, w')"
    using assms t by (simp add: run_task_def Let_def s_def split: sum.splits)
  have failed: "s = filename @ '' FAILED: '' @ exn_text e \<and> py_in filename s \<and> py_in (exn_text e) s"
    if "res = Inl e" for e
  proof -
    from that have s: "s = filename @ '' FAILED: '' @ exn_text e"
      by (simp add: s_def)
    have "py_in filename ([] @ filename @ ('' FAILED: '' @ exn_text e))"
      by (rule py_in_append)
    moreover have "py_in (exn_text e) ((filename @ '' FAILED: '') @ exn_text e @ [])"
      by (rule py_in_append)
    ultimately show ?thesis using s by simp
  qed
  have fetch: "s = filename @ '' FAILED: '' @ exn_text e \<and> files w' = files w"
    if "requests_get env task_url = Inl e" for e
    using run_task_try_fetch_error [OF that, of output_dir filename is_json ?w1] t
    by (auto simp: s_def)
  have other: "files w' q = files w q" if "q \<noteq> os_path_join output_dir filename" for q
    using run_task_try_other_files [OF that, of env task_url is_json ?w1] t by simp
  have files2: "files (snd (run_task env output_dir name2 url2 filename2 is_json2 w'))
              (os_path_join output_dir filename2)
        = files (snd (run_task env output_dir name2 url2 filename2 is_json2 w))
              (os_path_join output_dir filename2)"
    if "filename2 \<noteq> filename"
  proof (rule run_task_files)
    from that have "os_path_join output_dir filename2 \<noteq> os_path_join output_dir filename"
      by (simp add: os_path_join_def)
    then show "files w' (os_path_join output_dir filename2) = files w (os_path_join output_dir filename2)"
      by (rule other)
  qed
  from run res failed fetch files2
    run_task_result [of env output_dir name2 url2 filename2 is_json2 w' w]
  show ?thesis by blast
qed

text \<open>
  C6 as stated fails where the first call of \<open>log\<close> raises (the log file cannot be
  written): the exception leaves \<open>run_task\<close>.
\<close>

theorem run_task_log_counterexample:
  "fst (run_task env_log_fails ''out'' ''Canada M3U'' ''https://example.org/countries/ca.m3u''
         ''4_canada_kitchener.csv'' False empty_world)
     = Inl (Raised ''[Errno 28] No space left on device'')"
  by code_simp

text \<open>
  A fetch that times out gives the failure string, and the task run after it still
  returns its own result.
\<close>

theorem run_task_catches_witness:
  "log_error env_timeout (start_message ''English M3U'') = None \<and>
   requests_get env_timeout timeout_url = Inl (Raised ''Read timed out. (read timeout=40)'') \<and>
   fst (run_task env_timeout ''out'' ''English M3U'' timeout_url ''2_english_m3u.csv'' False empty_world)
     = Inr ''2_english_m3u.csv FAILED: Read timed out. (read timeout=40)'' \<and>
   fst (run_task env_timeout ''out'' ''Canada M3U'' ''https://example.org/countries/ca.m3u''
          ''4_canada_kitchener.csv'' False
          (snd (run_task env_timeout ''out'' ''English M3U'' timeout_url ''2_english_m3u.csv'' False
                  empty_world)))
     = Inr (''4_canada_kitchener.csv '' @ arrow @ '' 1 channels'')"
proof -
  let ?first = "run_task env_timeout ''out'' ''English M3U'' timeout_url ''2_english_m3u.csv'' False
      empty_world"
  have l: "log_error env_timeout (start_message ''English M3U'') = None"
    by (simp add: env_timeout_def)
  have g: "requests_get env_timeout timeout_url = Inl (Raised ''Read timed out. (read timeout=40)'')"
    by (simp add: env_timeout_def)
  have alone: "fst (run_task env_timeout ''out'' ''Canada M3U'' ''https://example.org/countries/ca.m3u''
          ''4_canada_kitchener.csv'' False empty_world)
     = Inr (''4_canada_kitchener.csv '' @ arrow @ '' 1 channels'')"
    by code_simp
  from run_task_catches [OF l, of "''out''" timeout_url "''2_english_m3u.csv''" False empty_world
      "''Canada M3U''" "''https://example.org/countries/ca.m3u''" "''4_canada_kitchener.csv''" False]
  obtain s w' where run: "?first = (Inr s, w')"
    and fetch: "\<forall>e. requests_get env_timeout timeout_url = Inl e \<longrightarrow>
        s = ''2_english_m3u.csv'' @ '' FAILED: '' @ exn_text e \<and> files w' = files empty_world"
    and same: "fst (run_task env_timeout ''out'' ''Canada M3U'' ''https://example.org/countries/ca.m3u''
          ''4_canada_kitchener.csv'' False w')
       = fst (run_task env_timeout ''out'' ''Canada M3U'' ''https://example.org/countries/ca.m3u''
          ''4_canada_kitchener.csv'' False empty_world)"
    by blast
  from fetch g have "s = ''2_english_m3u.csv FAILED: Read timed out. (read timeout=40)''"
    by simp
  with run same alone l g show ?thesis
    by simp
qed

subsection \<open>The header of the JSON output\<close>

text \<open>
  C7. In the JSON pipeline, when the fetch, the status check and the decoding succeed
  and the file can be opened, \<open>run_task\<close> returns the success string and the file holds a
  header row followed by one row per emitted entry: the header is the single column
  \<open>name\<close> when nothing was emitted (and no data row follows it), and \<open>id\<close>, \<open>name\<close>,
  \<open>network\<close>, \<open>country\<close>, \<open>logo\<close> otherwise.
\<close>

theorem json_csv_header:
  assumes "log_error env (start_message task_name) = None"
    and "requests_get env task_url = Inr r" and "status_error r = None"
    and "body_json r = Inr data"
    and "open_error env (os_path_join output_dir filename) = None"
  shows "\<exists>w'. run_task env output_dir task_name task_url filename True w =
       (Inr (filename @ '' '' @ arrow @ '' '' @ str_nat (length (filter_loop data [])) @ '' channels''), w') \<and>
     files w' (os_path_join output_dir filename) =
       Some ((if filter_loop data [] = [] then [''name'']
              else [''id'', ''name'', ''network'', ''country'', ''logo''])
             # map entry_row (filter_loop data []))"
  using assms(1) run_task_try_json [OF assms(2-5)]
  by (simp add: run_task_def Let_def)

text \<open>
  One run in which every channel is filtered out, and one that keeps a channel.
\<close>

theorem json_csv_header_witness:
  "fst (run_task (env_json [sports_channel]) ''out'' ''iptv-org JSON'' ''https://example.org/channels.json''
         ''1_iptv-org_full.csv'' True empty_world)
     = Inr (''1_iptv-org_full.csv '' @ arrow @ '' 0 channels'') \<and>
   files (snd (run_task (env_json [sports_channel]) ''out'' ''iptv-org JSON''
         ''https://example.org/channels.json'' ''1_iptv-org_full.csv'' True empty_world))
       (os_path_join ''out'' ''1_iptv-org_full.csv'')
     = Some [[''name'']] \<and>
   files (snd (run_task (env_json [sports_channel, sample_channel]) ''out'' ''iptv-org JSON''
         ''https://example.org/channels.json'' ''1_iptv-org_full.csv'' True empty_world))
       (os_path_join ''out'' ''1_iptv-org_full.csv'')
     = Some [[''id'', ''name'', ''network'', ''country'', ''logo''],
             [''CBLT.ca'', ''CBC Toronto'', ''CBC'', ''CA'', ''http://example.com/cbc.png'']]"
proof -
  let ?u = "''https://example.org/channels.json''"
  let ?f = "''1_iptv-org_full.csv''"
  have l: "log_error (env_json d) (start_message ''iptv-org JSON'') = None" for d
    by (simp add: env_json_def)
  have g: "requests_get (env_json d) ?u = Inr (json_response d)" for d
    by (simp add: env_json_def)
  have s: "status_error (json_response d) = None" for d
    by (simp add: json_response_def)
  have b: "body_json (json_response d) = Inr d" for d
    by (simp add: json_response_def)
  have p: "open_error (env_json d) (os_path_join ''out'' ?f) = None" for d
    by (simp add: env_json_def)
  have e: "filter_loop [sports_channel] [] = []"
    by code_simp
  have n: "filter_loop [sports_channel, sample_channel] [] = [sample_entry]"
    by code_simp
  have row: "entry_row sample_entry
      = [''CBLT.ca'', ''CBC Toronto'', ''CBC'', ''CA'', ''http://example.com/cbc.png'']"
    by code_simp
  have z: "str_nat 0 = ''0''"
    by code_simp
  from json_csv_header [OF l g s b p, of "[sports_channel]" empty_world]
       json_csv_header [OF l g s b p, of "[sports_channel, sample_channel]" empty_world]
       e n row z
  show ?thesis by auto
qed

subsection \<open>Case of the excluded categories\<close>

text \<open>
  C8. An entry whose group title is \<open>Sports|CA\<close> or \<open>SPORTS|ca\<close> appends no record,
  wherever it stands in the playlist, and the scan goes on at the next line; the
  category exclusion holds for both titles, and in general it gives the same answer for
  a group title and for the title in lower case.
\<close>

theorem sports_group_titles_yield_no_record:
  assumes "getitem lines i = Inr info"
    and "group_title_of info = ''Sports|CA'' \<or> group_title_of info = ''SPORTS|ca''"
    and "try_body lines i channels = (c, j, chs)"
  shows "chs = channels \<and> parse_loop lines i channels = parse_loop lines (i + 1) channels \<and>
         excluded_cats (cats_of (group_title_of info)) \<and>
         excluded_cats (cats_of (lower g)) = excluded_cats (cats_of g)"
proof -
  have "excluded_cats (cats_of ''Sports|CA'')" "excluded_cats (cats_of ''SPORTS|ca'')"
    by code_simp+
  with assms(2) have ex: "excluded_cats (cats_of (group_title_of info))"
    by auto
  then have none: "entry_record info l = None" for l
    by (rule entry_record_excluded)
  from try_body_no_record [OF assms(1,3) none] try_body_skip [OF assms(1) none] ex
  show ?thesis by (simp add: cats_of_lower)
qed

text \<open>
  Both group titles, each before a valid URL line: no record.
\<close>

theorem sports_group_titles_yield_no_record_witness:
  "getitem sports_lines 0 = Inr (info_line ''Sports|CA'' ''TSN'') \<and>
   group_title_of (info_line ''Sports|CA'' ''TSN'') = ''Sports|CA'' \<and>
   try_body sports_lines 0 [] = (Continue, 1, []) \<and>
   parse_loop sports_lines 0 [] = Inr [] \<and>
   getitem sports_upper_lines 0 = Inr (info_line ''SPORTS|ca'' ''TSN'') \<and>
   group_title_of (info_line ''SPORTS|ca'' ''TSN'') = ''SPORTS|ca'' \<and>
   try_body sports_upper_lines 0 [] = (Continue, 1, []) \<and>
   parse_loop sports_upper_lines 0 [] = Inr []"
proof -
  have a: "getitem sports_lines 0 = Inr (info_line ''Sports|CA'' ''TSN'')"
    and b: "group_title_of (info_line ''Sports|CA'' ''TSN'') = ''Sports|CA''"
    and c: "try_body sports_lines 0 [] = (Continue, 1, [])"
    and d: "parse_loop sports_lines 1 [] = Inr []"
    by code_simp+
  have a': "getitem sports_upper_lines 0 = Inr (info_line ''SPORTS|ca'' ''TSN'')"
    and b': "group_title_of (info_line ''SPORTS|ca'' ''TSN'') = ''SPORTS|ca''"
    and c': "try_body sports_upper_lines 0 [] = (Continue, 1, [])"
    and d': "parse_loop sports_upper_lines 1 [] = Inr []"
    by code_simp+
  from sports_group_titles_yield_no_record [OF a _ c] b d
  have "parse_loop sports_lines 0 [] = Inr []" by simp
  moreover from sports_group_titles_yield_no_record [OF a' _ c'] b' d'
  have "parse_loop sports_upper_lines 0 [] = Inr []" by simp
  ultimately show ?thesis using a b c a' b' c' by simp
qed

subsection \<open>Case of the country keywords\<close>

text \<open>
  C9. The country keywords are looked for in the group title as it is written. An
  entry whose group title holds a keyword when letter case is ignored, but none in the
  keyword's own case, gets no country and appends no record, although the category list
  of the same title is the one of the title in lower case.
\<close>

theorem country_keywords_case_sensitive:
  assumes "getitem lines i = Inr info"
    and "list_ex (\<lambda>k. py_in (lower k) (lower (group_title_of info))) country_keywords"
    and "\<not> list_ex (\<lambda>k. py_in k (group_title_of info)) country_keywords"
    and "try_body lines i channels = (c, j, chs)"
  shows "derive_country (group_title_of info) = [] \<and> chs = channels \<and>
         parse_loop lines i channels = parse_loop lines (i + 1) channels \<and>
         cats_of (lower (group_title_of info)) = cats_of (group_title_of info)"
proof -
  from assms(3) have nc: "derive_country (group_title_of info) = []"
    by (simp add: derive_country_def country_keywords_def)
  then have none: "entry_record info l = None" for l
    by (rule entry_record_no_country)
  from try_body_no_record [OF assms(1,4) none] try_body_skip [OF assms(1) none] nc
  show ?thesis by (simp add: cats_of_lower)
qed

text \<open>
  The group titles \<open>canada\<close> and \<open>usa\<close>.
\<close>

theorem country_keywords_case_sensitive_witness:
  "getitem lower_case_lines 0 = Inr (info_line ''canada'' ''CBC Toronto'') \<and>
   group_title_of (info_line ''canada'' ''CBC Toronto'') = ''canada'' \<and>
   py_in (lower ''Canada'') (lower ''canada'') \<and>
   \<not> list_ex (\<lambda>k. py_in k ''canada'') country_keywords \<and>
   try_body lower_case_lines 0 [] = (Continue, 1, []) \<and>
   getitem lower_case_lines 2 = Inr (info_line ''usa'' ''PBS'') \<and>
   group_title_of (info_line ''usa'' ''PBS'') = ''usa'' \<and>
   py_in (lower ''USA'') (lower ''usa'') \<and>
   \<not> list_ex (\<lambda>k. py_in k ''usa'') country_keywords \<and>
   try_body lower_case_lines 2 [] = (Continue, 3, []) \<and>
   derive_country ''canada'' = [] \<and> derive_country ''usa'' = [] \<and>
   parse_loop lower_case_lines 0 [] = Inr []"
proof -
  have a: "getitem lower_case_lines 0 = Inr (info_line ''canada'' ''CBC Toronto'')"
    and b: "group_title_of (info_line ''canada'' ''CBC Toronto'') = ''canada''"
    and c: "try_body lower_case_lines 0 [] = (Continue, 1, [])"
    and d: "list_ex (\<lambda>k. py_in (lower k) (lower ''canada'')) country_keywords"
    and e: "\<not> list_ex (\<lambda>k. py_in k ''canada'') country_keywords"
    and f: "py_in (lower ''Canada'') (lower ''canada'')"
    by code_simp+
  have a': "getitem lower_case_lines 2 = Inr (info_line ''usa'' ''PBS'')"
    and b': "group_title_of (info_line ''usa'' ''PBS'') = ''usa''"
    and c': "try_body lower_case_lines 2 [] = (Continue, 3, [])"
    and d': "list_ex (\<lambda>k. py_in (lower k) (lower ''usa'')) country_keywords"
    and e': "\<not> list_ex (\<lambda>k. py_in k ''usa'') country_keywords"
    and f': "py_in (lower ''USA'') (lower ''usa'')"
    by code_simp+
  have p: "parse_loop lower_case_lines 0 [] = Inr []"
    by code_simp
  from country_keywords_case_sensitive [OF a _ _ c] b d e
  have "derive_country ''canada'' = []" by simp
  moreover from country_keywords_case_sensitive [OF a' _ _ c'] b' d' e'
  have "derive_country ''usa'' = []" by simp
  ultimately show ?thesis using a b c e f a' b' c' e' f' p by simp
qed

subsection \<open>Where the scan resumes\<close>

text \<open>
  C10, as the code has it. The parser tests the line after a marker line once it is
  stripped of surrounding white space. When the stripped line does not start with
  \<open>http\<close>, which is so for every marker line, the loop goes on at that very line: the
  \<open>try\<close> body ends in \<open>continue\<close> with the index on that line (or in the swallowed
  \<open>IndexError\<close> with the index still on the marker line, when the marker line has no
  comma), and the parse from the marker line equals the parse from the line after it.
\<close>

theorem parse_loop_resumes_at_next_line:
  assumes "i + 1 < length lines" and "startswith (lines ! i) ''#EXTINF:''"
    and "\<not> startswith (strip (lines ! (i + 1))) ''http'' \<or> startswith (lines ! (i + 1)) ''#EXTINF:''"
  shows "parse_loop lines i channels = parse_loop lines (i + 1) channels \<and>
         (case display_name (lines ! i) of
            Inl e \<Rightarrow> try_body lines i channels = (Except e, i, channels)
          | Inr nm \<Rightarrow> try_body lines i channels = (Continue, i + 1, channels))"
proof -
  from assms(3) have "\<not> startswith (strip (lines ! (i + 1))) ''http''"
    using marker_not_http by blast
  then have none: "entry_record (lines ! i) (lines ! (i + 1)) = None"
    by (rule entry_record_not_http)
  with assms(1) show ?thesis
    by (simp add: parse_loop_skip try_body_inner split: sum.splits)
qed

text \<open>
  C10 as stated fails for a URL line that starts with white space: the line does not
  start with \<open>http\<close>, yet it is taken as the URL of the entry and the scan goes on after
  it.
\<close>

theorem indented_url_counterexample:
  "startswith (indented_lines ! 0) ''#EXTINF:'' \<and> \<not> startswith (indented_lines ! 1) ''http'' \<and>
   parse_loop indented_lines 0 [] = Inr [sample_record] \<and>
   parse_loop indented_lines 1 [] = Inr []"
  by code_simp

text \<open>
  Two marker lines in a row: the second one starts the entry that is emitted.
\<close>

theorem parse_loop_resumes_at_next_line_witness:
  "0 + 1 < length two_marker_lines \<and> startswith (two_marker_lines ! 0) ''#EXTINF:'' \<and>
   startswith (two_marker_lines ! (0 + 1)) ''#EXTINF:'' \<and>
   parse_loop two_marker_lines (0 + 1) [] = Inr [sample_record] \<and>
   parse_loop two_marker_lines 0 [] = Inr [sample_record]"
proof -
  have a: "0 + 1 < length two_marker_lines"
    and b: "startswith (two_marker_lines ! 0) ''#EXTINF:''"
    and c: "startswith (two_marker_lines ! (0 + 1)) ''#EXTINF:''"
    and d: "parse_loop two_marker_lines (0 + 1) [] = Inr [sample_record]"
    by code_simp+
  from parse_loop_resumes_at_next_line [OF a b disjI2 [OF c], of "[]"] d
  have "parse_loop two_marker_lines 0 [] = Inr [sample_record]" by simp
  with a b c d show ?thesis by simp
qed

end
